theory Spec2Isabelle
  imports Complex_Main
begin

section \<open>Soft tissue simulation: scene entities, engine graph and field transforms\<close>

text \<open>
  Shallow embedding of \<^verbatim>\<open>SoftTissueSimulation/SoftTissueSimulation.py\<close>.
  Python floats and numpy arrays of floats are idealised as \<^typ>\<open>real\<close>; every raise of
  the Python code is a value \<open>Inl e\<close> of the result type.
\<close>

subsection \<open>Errors\<close>

datatype error =
    AttributeError
  | TypeError
  | IndexError
  | ZeroDivisionError
  | AlreadyRunning
  | NotRunning

subsection \<open>Vectors\<close>

type_synonym vec3 = "real \<times> real \<times> real"

fun vsub :: "vec3 \<Rightarrow> vec3 \<Rightarrow> vec3" where
  "vsub (a, b, c) (x, y, z) = (a - x, b - y, c - z)"

fun vscale :: "vec3 \<Rightarrow> real \<Rightarrow> vec3" where
  "vscale (x, y, z) k = (x * k, y * k, z * k)"

text \<open>\<^verbatim>\<open>np.linalg.norm\<close> of a 3-vector.\<close>

fun vnorm :: "vec3 \<Rightarrow> real" where
  "vnorm (x, y, z) = sqrt (x * x + y * y + z * z)"

text \<open>
  Element-wise division of an array by a scalar. HOL's \<open>x / 0 = 0\<close> would hide a
  division by zero, so the fault is a result of its own.
\<close>

fun vdiv :: "vec3 \<Rightarrow> real \<Rightarrow> error + vec3" where
  "vdiv (x, y, z) m = (if m = 0 then Inl ZeroDivisionError else Inr (x / m, y / m, z / m))"

text \<open>\<^verbatim>\<open>list(p)\<close> of a coordinate triple.\<close>

fun list_of_vec3 :: "vec3 \<Rightarrow> real list" where
  "list_of_vec3 (x, y, z) = [x, y, z]"

text \<open>Python's \<^verbatim>\<open>xs * n\<close> on a list: \<open>n\<close> copies of \<open>xs\<close>, concatenated.\<close>

definition list_repeat :: "'a list \<Rightarrow> nat \<Rightarrow> 'a list" where
  "list_repeat xs n = concat (replicate n xs)"

subsection \<open>Scene entities\<close>

text \<open>
  A \<^verbatim>\<open>vtkUnstructuredGrid\<close> or \<^verbatim>\<open>vtkPolyData\<close>: its points, the flat cell array
  \<^verbatim>\<open>GetCells().GetData()\<close> (\<open>[n, i1, ..., in, n, ...]\<close>) and \<^verbatim>\<open>GetNumberOfCells()\<close>.
\<close>

record Mesh =
  points :: "vec3 list"
  cellData :: "nat list"
  numberOfCells :: nat

text \<open>A \<^verbatim>\<open>vtkMRMLModelNode\<close>: either accessor may return \<^verbatim>\<open>None\<close>.\<close>

record ModelNode =
  GetUnstructuredGrid :: "Mesh option"
  GetPolyData :: "Mesh option"

text \<open>A \<^verbatim>\<open>vtkMRMLMarkupsROINode\<close>: centre (\<^verbatim>\<open>SetXYZ\<close>) and half-extents (\<^verbatim>\<open>SetRadiusXYZ\<close>).\<close>

record ROINode =
  center :: vec3
  radius :: vec3

text \<open>A \<^verbatim>\<open>vtkMRMLMarkupsLineNode\<close> with its two endpoints.\<close>

record LineNode =
  endpoint0 :: vec3
  endpoint1 :: vec3

text \<open>A \<^verbatim>\<open>vtkMRMLMarkupsFiducialNode\<close> with its control points.\<close>

record FiducialNode =
  controlPoints :: "vec3 list"

text \<open>
  \<^verbatim>\<open>GetNthControlPointPosition(n)\<close>: the position of the \<open>n\<close>-th control point, and
  \<^verbatim>\<open>None\<close> where the marker has no such control point.
\<close>

definition GetNthControlPointPosition :: "FiducialNode \<Rightarrow> nat \<Rightarrow> vec3 option" where
  "GetNthControlPointPosition f n =
     (if n < length (controlPoints f) then Some (controlPoints f ! n) else None)"

subsection \<open>The parameter node\<close>

text \<open>
  \<^verbatim>\<open>SoftTissueSimulationParameterNode\<close>: the four bound entities (each may be
  \<^verbatim>\<open>None\<close>), the gravity magnitude, and the simulation parameters \<open>dt\<close>,
  \<open>currentStep\<close> and \<open>totalSteps\<close> that \<^verbatim>\<open>resetParameterNode\<close> writes.
\<close>

record ParameterNode =
  modelNode :: "ModelNode option"
  movingPointNode :: "FiducialNode option"
  boundaryROI :: "ROINode option"
  gravityVector :: "LineNode option"
  gravityMagnitude :: int
  dt :: real
  currentStep :: int
  totalSteps :: int

text \<open>The class default of the only field the class body initialises is \<open>gravityMagnitude = 1\<close>.\<close>

definition classDefaults :: "ParameterNode \<Rightarrow> ParameterNode" where
  "classDefaults pn = pn\<lparr>gravityMagnitude := 1\<rparr>"

subsection \<open>The engine graph\<close>

text \<open>
  The part of the SOFA graph the transforms read and write: the root's \<open>gravity\<close>,
  the \<open>box\<close> of \<^verbatim>\<open>FEM.FixedROI.BoxROI\<close>, \<open>tetrahedra\<close> and \<open>position\<close> of the
  \<^verbatim>\<open>FEM\<close> node's \<^verbatim>\<open>Container\<close>, the \<open>position\<close> of
  \<^verbatim>\<open>AttachPoint.mouseInteractor\<close>, and the positions of \<^verbatim>\<open>Collision.dofs\<close>.
\<close>

record SofaNode =
  gravity :: vec3
  box :: "real list list"
  Container_tetrahedra :: "nat list list option"
  Container_position :: "vec3 list option"
  position :: "real list list"
  Collision_dofs_position :: "vec3 list"

text \<open>What \<^verbatim>\<open>CreateScene\<close> sets of these fields.\<close>

definition CreateScene :: SofaNode where
  "CreateScene =
     \<lparr>gravity = (0, 0, 0),
      box = [[0, 0, 0, 0, 0, 0]],
      Container_tetrahedra = None,
      Container_position = None,
      position = [],
      Collision_dofs_position = []\<rparr>"

subsection \<open>Helpers imported from the SlicerSofa library\<close>

text \<open>
  Modelled from the spec: \<^verbatim>\<open>arrayFromMarkupsROIPoints\<close> is imported from \<^verbatim>\<open>SlicerSofa\<close>
  and is not in the source file. The spec (4.2): \<open>box = [minX,minY,minZ,maxX,maxY,maxZ]\<close>
  computed directly from the marker's current center/half-extents.
\<close>

fun arrayFromMarkupsROIPoints :: "ROINode \<Rightarrow> real list" where
  "arrayFromMarkupsROIPoints roi =
     (case (center roi, radius roi) of
        ((cx, cy, cz), (rx, ry, rz)) \<Rightarrow> [cx - rx, cy - ry, cz - rz, cx + rx, cy + ry, cz + rz])"

text \<open>
  Modelled from the spec: \<^verbatim>\<open>arrayVectorFromMarkupsLinePoints\<close> is imported from
  \<^verbatim>\<open>SlicerSofa\<close> and is not in the source file. The spec (4.2): the vector
  \<open>endpoint1 - endpoint0\<close>.
\<close>

definition arrayVectorFromMarkupsLinePoints :: "LineNode \<Rightarrow> vec3" where
  "arrayVectorFromMarkupsLinePoints lineNode = vsub (endpoint1 lineNode) (endpoint0 lineNode)"

subsection \<open>The transforms of the parameter node\<close>

definition markupsROIToSofaROI :: "ParameterNode \<Rightarrow> SofaNode \<Rightarrow> error + SofaNode" where
  "markupsROIToSofaROI self sofaNode =
     (case boundaryROI self of
        None \<Rightarrow> Inr sofaNode
      | Some roi \<Rightarrow> Inr (sofaNode\<lparr>box := [arrayFromMarkupsROIPoints roi]\<rparr>))"

definition markupsLineToGravityVector :: "ParameterNode \<Rightarrow> SofaNode \<Rightarrow> error + SofaNode" where
  "markupsLineToGravityVector self sofaNode =
     (case gravityVector self of
        None \<Rightarrow> Inr sofaNode
      | Some lineNode \<Rightarrow>
          (let gv = arrayVectorFromMarkupsLinePoints lineNode;
               magnitude = vnorm gv
           in case (if magnitude \<noteq> 0 then vdiv gv magnitude else Inr gv) of
                Inl e \<Rightarrow> Inl e
              | Inr normalizedGravityVector \<Rightarrow>
                  Inr (sofaNode\<lparr>gravity :=
                         vscale normalizedGravityVector (of_int (gravityMagnitude self))\<rparr>)))"

text \<open>
  The loop of \<^verbatim>\<open>modelNodetoSofaNode\<close> over the flat cell array: \<open>k\<close> cells are left to
  read, \<open>idx\<close> is the read position, \<open>acc\<close> the connectivity so far. Reading
  \<^verbatim>\<open>cellArray[idx]\<close> past the end raises; the slice is cut at the end of the array.
\<close>

fun parseCells :: "nat \<Rightarrow> nat list \<Rightarrow> nat \<Rightarrow> nat list list \<Rightarrow> error + nat list list" where
  "parseCells 0 cellArray idx acc = Inr acc"
| "parseCells (Suc k) cellArray idx acc =
     (if idx < length cellArray
      then (let numPoints = cellArray ! idx
            in parseCells k cellArray (idx + (numPoints + 1))
                 (acc @ [take numPoints (drop (idx + 1) cellArray)]))
      else Inl IndexError)"

text \<open>The body of \<^verbatim>\<open>modelNodetoSofaNode\<close> (under its \<^verbatim>\<open>RunOnce\<close> decorator).\<close>

definition modelNodetoSofaNode :: "ParameterNode \<Rightarrow> SofaNode \<Rightarrow> error + SofaNode" where
  "modelNodetoSofaNode self sofaNode =
     (case modelNode self of
        None \<Rightarrow> Inr sofaNode
      | Some m \<Rightarrow>
          (case GetUnstructuredGrid m of
             None \<Rightarrow> Inl AttributeError
           | Some unstructuredGrid \<Rightarrow>
               (let pointCoords = points unstructuredGrid
                in case parseCells (numberOfCells unstructuredGrid) (cellData unstructuredGrid) 0 [] of
                     Inl e \<Rightarrow> Inl e
                   | Inr cellConnectivity \<Rightarrow>
                       Inr (sofaNode\<lparr>Container_tetrahedra := Some cellConnectivity,
                                      Container_position := Some pointCoords\<rparr>))))"

text \<open>
  \<^verbatim>\<open>sofaNodeToModelNode\<close> changes the model node held by the parameter node. It has no
  test of \<^verbatim>\<open>self.modelNode\<close>: \<^verbatim>\<open>self.modelNode.GetUnstructuredGrid()\<close> on \<^verbatim>\<open>None\<close> raises.
\<close>

definition sofaNodeToModelNode :: "ParameterNode \<Rightarrow> SofaNode \<Rightarrow> error + ParameterNode" where
  "sofaNodeToModelNode self sofaNode =
     (let convertedPoints = Collision_dofs_position sofaNode
      in case modelNode self of
           None \<Rightarrow> Inl AttributeError
         | Some m \<Rightarrow>
             (case GetUnstructuredGrid m of
                None \<Rightarrow> Inl AttributeError
              | Some g \<Rightarrow>
                  Inr (self\<lparr>modelNode :=
                         Some (m\<lparr>GetUnstructuredGrid := Some (g\<lparr>points := convertedPoints\<rparr>)\<rparr>)\<rparr>)))"

text \<open>
  \<^verbatim>\<open>list(None)\<close> raises \<^verbatim>\<open>TypeError\<close> where the marker has no first control point.
\<close>

definition markupsFiducialNodeToSofaPoint :: "ParameterNode \<Rightarrow> SofaNode \<Rightarrow> error + SofaNode" where
  "markupsFiducialNodeToSofaPoint self sofaNode =
     (case movingPointNode self of
        None \<Rightarrow> Inr sofaNode
      | Some f \<Rightarrow>
          (case GetNthControlPointPosition f 0 of
             None \<Rightarrow> Inl TypeError
           | Some p \<Rightarrow> Inr (sofaNode\<lparr>position := [list_repeat (list_of_vec3 p) 3]\<rparr>)))"

subsection \<open>The logic: resetting the parameter node\<close>

text \<open>
  \<^verbatim>\<open>resetParameterNode\<close>: \<open>None\<close> stands for a parameter node that tests false in
  \<^verbatim>\<open>if self.getParameterNode():\<close>.
\<close>

definition resetParameterNode :: "ParameterNode option \<Rightarrow> ParameterNode option" where
  "resetParameterNode pno =
     (case pno of
        None \<Rightarrow> None
      | Some pn \<Rightarrow>
          Some (pn\<lparr>modelNode := None,
                   boundaryROI := None,
                   gravityVector := None,
                   movingPointNode := None,
                   dt := 1 / 100,
                   currentStep := 0,
                   totalSteps := - 1\<rparr>))"

subsection \<open>The logic: derived geometry\<close>

type_synonym bounds6 = "real \<times> real \<times> real \<times> real \<times> real \<times> real"

text \<open>
  The block that \<^verbatim>\<open>addBoundaryROI\<close>, \<^verbatim>\<open>addGravityVector\<close> and
  \<^verbatim>\<open>addFiducialToClosestPoint\<close> repeat: the unstructured grid of the model node if it
  has one, else its poly data, else \<^verbatim>\<open>None\<close>.
\<close>

definition meshOfModelNode :: "ModelNode \<Rightarrow> Mesh option" where
  "meshOfModelNode m =
     (case GetUnstructuredGrid m of
        Some g \<Rightarrow> Some g
      | None \<Rightarrow> GetPolyData m)"

text \<open>
  \<^verbatim>\<open>addBoundaryROI\<close>. The bounds query \<^verbatim>\<open>mesh.GetBounds()\<close> belongs to VTK and is a
  parameter \<open>GetBounds\<close>, giving \<open>(xmin, xmax, ymin, ymax, zmin, zmax)\<close>; \<open>roiNode\<close> is
  the region marker that \<^verbatim>\<open>AddNewNodeByClass\<close> has just created. The function has no
  test on the number of points and no raise.
\<close>

definition addBoundaryROI ::
  "(Mesh \<Rightarrow> bounds6) \<Rightarrow> ROINode \<Rightarrow> ParameterNode \<Rightarrow> ParameterNode" where
  "addBoundaryROI GetBounds roiNode self =
     (let mesh = (case modelNode self of None \<Rightarrow> None | Some m \<Rightarrow> meshOfModelNode m);
          roiNode' =
            (case mesh of
               None \<Rightarrow> roiNode
             | Some me \<Rightarrow>
                 (case GetBounds me of
                    (b0, b1, b2, b3, b4, b5) \<Rightarrow>
                      roiNode\<lparr>center := ((b0 + b1) / 2, (b2 + b3) / 2, (b4 + b5) / 2),
                              radius := (\<bar>b1 - b0\<bar> / 2, \<bar>b3 - b2\<bar> / 2, \<bar>b5 - b4\<bar> / 2)\<rparr>))
      in self\<lparr>boundaryROI := Some roiNode'\<rparr>)"

text \<open>
  The bounds a VTK data set reports: the coordinate-wise minima and maxima of its points,
  and the "uninitialised" bounds \<open>(1, -1, 1, -1, 1, -1)\<close> when it has no points.
\<close>

fun extendBounds :: "vec3 \<Rightarrow> bounds6 \<Rightarrow> bounds6" where
  "extendBounds (x, y, z) (x0, x1, y0, y1, z0, z1) =
     (min x0 x, max x1 x, min y0 y, max y1 y, min z0 z, max z1 z)"

definition vtkGetBounds :: "Mesh \<Rightarrow> bounds6" where
  "vtkGetBounds mesh =
     (case points mesh of
        [] \<Rightarrow> (1, - 1, 1, - 1, 1, - 1)
      | (x, y, z) # ps \<Rightarrow> fold extendBounds ps (x, x, y, y, z, z))"

text \<open>Squared Euclidean distance.\<close>

fun dist2 :: "vec3 \<Rightarrow> vec3 \<Rightarrow> real" where
  "dist2 (a, b, c) (x, y, z) = (a - x) * (a - x) + (b - y) * (b - y) + (c - z) * (c - z)"

text \<open>
  \<^verbatim>\<open>vtkPointLocator.FindClosestPoint\<close> belongs to VTK. Its search goes through the
  locator's buckets, the bucket of the query point first and then the neighbouring ones,
  and through the point ids of each bucket; it starts with no point (id \<open>-1\<close>, the best
  squared distance being the largest double) and replaces the best point only by a
  strictly nearer one. The order in which the search reaches the point ids is fixed by
  VTK's subdivision of the bounds and is the parameter \<open>visitOrder\<close>: the ids of the
  query point's bucket (of the nearest buckets that hold a point, when it is empty) in
  ascending order, then those of the buckets within the best distance found. The points
  that the search leaves out lie in buckets farther away than the best point found; listed
  last they change nothing. An id that is no point of the mesh is passed over. On a data
  set without points the result is \<open>-1\<close>.
\<close>

fun closestFrom :: "vec3 list \<Rightarrow> vec3 \<Rightarrow> nat list \<Rightarrow> int \<Rightarrow> real \<Rightarrow> int" where
  "closestFrom pts x [] closest minDist2 = closest"
| "closestFrom pts x (ptId # ids) closest minDist2 =
     (if ptId < length pts \<and> (closest = - 1 \<or> dist2 (pts ! ptId) x < minDist2)
      then closestFrom pts x ids (int ptId) (dist2 (pts ! ptId) x)
      else closestFrom pts x ids closest minDist2)"

definition FindClosestPoint :: "nat list \<Rightarrow> vec3 list \<Rightarrow> vec3 \<Rightarrow> int" where
  "FindClosestPoint visitOrder pts x =
     (if length pts < 1 then - 1 else closestFrom pts x visitOrder (- 1) 0)"

text \<open>
  \<^verbatim>\<open>modelData.GetPoint(id)\<close>. VTK does not check the id; what it reads for an id that is
  no point of the mesh is the parameter \<open>outOfRange\<close>.
\<close>

definition GetPoint :: "vec3 \<Rightarrow> Mesh \<Rightarrow> int \<Rightarrow> vec3" where
  "GetPoint outOfRange mesh ptId =
     (if 0 \<le> ptId \<and> nat ptId < length (points mesh) then points mesh ! nat ptId
      else outOfRange)"

text \<open>
  The nearest-point lookup of \<^verbatim>\<open>addFiducialToClosestPoint\<close>:
  \<^verbatim>\<open>closestPointId = pointLocator.FindClosestPoint(camPosition)\<close> and
  \<^verbatim>\<open>closestPoint = modelData.GetPoint(closestPointId)\<close>.
\<close>

definition nearestPoint :: "nat list \<Rightarrow> vec3 \<Rightarrow> Mesh \<Rightarrow> vec3 \<Rightarrow> int \<times> vec3" where
  "nearestPoint visitOrder outOfRange modelData camPosition =
     (let closestPointId = FindClosestPoint visitOrder (points modelData) camPosition;
          closestPoint = GetPoint outOfRange modelData closestPointId
      in (closestPointId, closestPoint))"

text \<open>
  \<^verbatim>\<open>addFiducialToClosestPoint\<close>, given the camera position. The mesh is that of the
  parameter node's model node (the argument \<open>modelNodeArg\<close> is not read); without a
  model node or a mesh an attribute access on \<^verbatim>\<open>None\<close> raises.
\<close>

definition addFiducialToClosestPoint ::
  "nat list \<Rightarrow> vec3 \<Rightarrow> ParameterNode \<Rightarrow> ModelNode \<Rightarrow> vec3 \<Rightarrow> error + FiducialNode" where
  "addFiducialToClosestPoint visitOrder outOfRange self modelNodeArg camPosition =
     (case modelNode self of
        None \<Rightarrow> Inl AttributeError
      | Some m \<Rightarrow>
          (case meshOfModelNode m of
             None \<Rightarrow> Inl AttributeError
           | Some modelData \<Rightarrow>
               (case nearestPoint visitOrder outOfRange modelData camPosition of
                  (closestPointId, closestPoint) \<Rightarrow>
                    Inr \<lparr>controlPoints = [closestPoint]\<rparr>)))"

subsection \<open>Normalisation as the specification words it\<close>

text \<open>
  The spec's \<open>normalize\<close> (4.1): the zero vector unchanged if the magnitude is exactly zero,
  otherwise the vector scaled to unit length. The source has no such function; it
  normalises inline in \<^verbatim>\<open>markupsLineToGravityVector\<close>.
\<close>

definition spec_normalize :: "vec3 \<Rightarrow> vec3" where
  "spec_normalize v = (if vnorm v = 0 then v else vscale v (1 / vnorm v))"

section \<open>The simulation session\<close>

text \<open>
  Modelled from the spec: the session controller (\<^verbatim>\<open>SlicerSofaLogic\<close> with
  \<^verbatim>\<open>startSimulation\<close>, \<^verbatim>\<open>simulationStep\<close>, \<^verbatim>\<open>stopSimulation\<close>), \<^verbatim>\<open>NodeMapper\<close> and the
  \<^verbatim>\<open>RunOnce\<close> decorator are imported from \<^verbatim>\<open>SlicerSofa\<close> and are not in the source
  file. This section follows the spec's sections 3, 4.2, 4.3 and 4.4. Of the spec's session
  state \<open>{phase, stepIndex, stepBudget, timeIncrement, engineGraphHandle}\<close>, the step
  index, the step budget and the time increment are the parameter node's
  \<open>currentStep\<close>, \<open>totalSteps\<close> and \<open>dt\<close>; the engine graph is the logic's
  \<^verbatim>\<open>_rootNode\<close>, and \<open>engineGraphAttached\<close> says whether the session holds its handle.
  \<open>onceGuard\<close> is the latch of the one \<open>Once\<close> mapping (the topology upload);
  \<open>onceExecutions\<close> counts the executions of its transform and is read by no operation.
  \<open>simulationRunning\<close> is the attribute \<^verbatim>\<open>_simulationRunning\<close> that the source's
  \<^verbatim>\<open>startSimulation\<close> and \<^verbatim>\<open>stopSimulation\<close> set.
\<close>

datatype phase = Idle | Running

type_synonym snapshot =
  "ModelNode option \<times> FiducialNode option \<times> ROINode option \<times> LineNode option"

record SimulationSession =
  phase :: phase
  parameterNode :: ParameterNode
  rootNode :: SofaNode
  engineGraphAttached :: bool
  onceGuard :: bool
  onceExecutions :: nat
  sequences :: "(int \<times> snapshot) list"
  simulationRunning :: bool

text \<open>\<^verbatim>\<open>SoftTissueSimulationLogic.__init__\<close>: an idle session on the graph of \<^verbatim>\<open>CreateScene\<close>.\<close>

definition newLogic :: "ParameterNode \<Rightarrow> SimulationSession" where
  "newLogic pn =
     \<lparr>phase = Idle, parameterNode = pn, rootNode = CreateScene,
      engineGraphAttached = False, onceGuard = False, onceExecutions = 0,
      sequences = [], simulationRunning = False\<rparr>"

text \<open>
  Modelled from the spec: section 4.2. A \<open>Once\<close> mapping executes its to-engine transform only
  if it has not yet successfully executed in the current session; an attempt with the
  bound entity absent is a no-op that does not consume the guard. The result is the engine
  node, the guard, and the number of executions (0 or 1).
\<close>

definition RunOnce_modelNodetoSofaNode ::
  "ParameterNode \<Rightarrow> bool \<Rightarrow> SofaNode \<Rightarrow> error + (SofaNode \<times> bool \<times> nat)" where
  "RunOnce_modelNodetoSofaNode self guard sofaNode =
     (if guard then Inr (sofaNode, True, 0)
      else case modelNode self of
             None \<Rightarrow> Inr (sofaNode, False, 0)
           | Some m \<Rightarrow>
               (case modelNodetoSofaNode self sofaNode of
                  Inl e \<Rightarrow> Inl e
                | Inr sofaNode' \<Rightarrow> Inr (sofaNode', True, 1)))"

text \<open>
  Modelled from the spec: section 4.3. \<open>runToEngine\<close> invokes the to-engine transforms in
  registration order (the order of the class body: model node, moving point, boundary
  region, gravity vector); a transform that raises aborts the run.
\<close>

definition runToEngine ::
  "ParameterNode \<Rightarrow> bool \<Rightarrow> SofaNode \<Rightarrow> error + (SofaNode \<times> bool \<times> nat)" where
  "runToEngine self guard sofaNode =
     (case RunOnce_modelNodetoSofaNode self guard sofaNode of
        Inl e \<Rightarrow> Inl e
      | Inr (n1, guard', k) \<Rightarrow>
          (case markupsFiducialNodeToSofaPoint self n1 of
             Inl e \<Rightarrow> Inl e
           | Inr n2 \<Rightarrow>
               (case markupsROIToSofaROI self n2 of
                  Inl e \<Rightarrow> Inl e
                | Inr n3 \<Rightarrow>
                    (case markupsLineToGravityVector self n3 of
                       Inl e \<Rightarrow> Inl e
                     | Inr n4 \<Rightarrow> Inr (n4, guard', k)))))"

text \<open>
  Modelled from the spec: sections 4.2, 4.3. \<open>runFromEngine\<close> invokes the one from-engine
  transform, under the absent-entity no-op rule of the mapping.
\<close>

definition runFromEngine :: "ParameterNode \<Rightarrow> SofaNode \<Rightarrow> error + ParameterNode" where
  "runFromEngine self sofaNode =
     (case modelNode self of
        None \<Rightarrow> Inr self
      | Some m \<Rightarrow> sofaNodeToModelNode self sofaNode)"

definition snapshotOf :: "ParameterNode \<Rightarrow> snapshot" where
  "snapshotOf pn = (modelNode pn, movingPointNode pn, boundaryROI pn, gravityVector pn)"

text \<open>
  Modelled from the spec: section 4.4. \<open>start\<close> fails with \<open>AlreadyRunning\<close> while running;
  else it attaches the graph, re-arms the once-guard, runs \<open>runToEngine\<close> once, enters
  \<open>Running\<close> and sets the step index to 0.
\<close>

definition start :: "SimulationSession \<Rightarrow> error + SimulationSession" where
  "start s =
     (if phase s = Running then Inl AlreadyRunning
      else case runToEngine (parameterNode s) False (rootNode s) of
             Inl e \<Rightarrow> Inl e
           | Inr (root', guard', k) \<Rightarrow>
               Inr (s\<lparr>phase := Running,
                      parameterNode := (parameterNode s)\<lparr>currentStep := 0\<rparr>,
                      rootNode := root',
                      engineGraphAttached := True,
                      onceGuard := guard',
                      onceExecutions := onceExecutions s + k\<rparr>))"

text \<open>
  Modelled from the spec: section 4.4. \<open>step\<close> fails with \<open>NotRunning\<close> unless running; else it
  runs \<open>runToEngine\<close>, advances the engine by the time increment (the solver is the
  parameter \<open>animate\<close>), runs \<open>runFromEngine\<close>, records the recordable values at the
  current step index, increments the step index, and enters \<open>Idle\<close> if the step budget is
  not negative and the step index has reached it.
\<close>

definition step ::
  "(real \<Rightarrow> SofaNode \<Rightarrow> SofaNode) \<Rightarrow> SimulationSession \<Rightarrow> error + SimulationSession" where
  "step animate s =
     (if phase s \<noteq> Running then Inl NotRunning
      else case runToEngine (parameterNode s) (onceGuard s) (rootNode s) of
             Inl e \<Rightarrow> Inl e
           | Inr (root1, guard', k) \<Rightarrow>
               (let root2 = animate (dt (parameterNode s)) root1
                in case runFromEngine (parameterNode s) root2 of
                     Inl e \<Rightarrow> Inl e
                   | Inr pn' \<Rightarrow>
                       Inr (s\<lparr>phase :=
                                (if 0 \<le> totalSteps pn' \<and> totalSteps pn' \<le> currentStep pn' + 1
                                 then Idle else Running),
                              parameterNode := pn'\<lparr>currentStep := currentStep pn' + 1\<rparr>,
                              rootNode := root2,
                              onceGuard := guard',
                              onceExecutions := onceExecutions s + k,
                              sequences := sequences s @ [(currentStep pn', snapshotOf pn')]\<rparr>)))"

text \<open>
  Modelled from the spec: section 4.4. \<open>stop\<close> is a no-op on an idle session; else it enters
  \<open>Idle\<close> and releases the engine graph handle.
\<close>

definition stop :: "SimulationSession \<Rightarrow> SimulationSession" where
  "stop s = (if phase s = Idle then s else s\<lparr>phase := Idle, engineGraphAttached := False\<rparr>)"

text \<open>
  The source's overrides: \<^verbatim>\<open>startSimulation\<close> and \<^verbatim>\<open>stopSimulation\<close> call the inherited
  operation and set \<^verbatim>\<open>_simulationRunning\<close>. (\<^verbatim>\<open>Modified()\<close> only notifies observers,
  which read the session.)
\<close>

definition startSimulation :: "SimulationSession \<Rightarrow> error + SimulationSession" where
  "startSimulation s =
     (case start s of
        Inl e \<Rightarrow> Inl e
      | Inr s' \<Rightarrow> Inr (s'\<lparr>simulationRunning := True\<rparr>))"

definition stopSimulation :: "SimulationSession \<Rightarrow> SimulationSession" where
  "stopSimulation s = (stop s)\<lparr>simulationRunning := False\<rparr>"

text \<open>\<open>n\<close> calls of \<open>step\<close> in a row, all of which must succeed.\<close>

fun steps ::
  "(real \<Rightarrow> SofaNode \<Rightarrow> SofaNode) \<Rightarrow> nat \<Rightarrow> SimulationSession \<Rightarrow> error + SimulationSession" where
  "steps animate 0 s = Inr s"
| "steps animate (Suc n) s =
     (case step animate s of
        Inl e \<Rightarrow> Inl e
      | Inr s' \<Rightarrow> steps animate n s')"

text \<open>
  One call of \<open>step\<close> as its caller sees the session afterwards: a failing call leaves the
  session as it was.
\<close>

definition stepOrKeep ::
  "(real \<Rightarrow> SofaNode \<Rightarrow> SofaNode) \<Rightarrow> SimulationSession \<Rightarrow> SimulationSession" where
  "stepOrKeep animate s = (case step animate s of Inl e \<Rightarrow> s | Inr s' \<Rightarrow> s')"

text \<open>A solver that leaves the graph as it is, and a small scene, for concrete runs.\<close>

definition holdStill :: "real \<Rightarrow> SofaNode \<Rightarrow> SofaNode" where
  "holdStill h sofaNode = sofaNode"

definition tetraModel :: ModelNode where
  "tetraModel =
     \<lparr>GetUnstructuredGrid =
        Some \<lparr>points = [(0, 0, 0), (1, 0, 0), (0, 1, 0), (0, 0, 1)],
              cellData = [4, 0, 1, 2, 3],
              numberOfCells = 1\<rparr>,
      GetPolyData = None\<rparr>"

definition emptyParameterNode :: ParameterNode where
  "emptyParameterNode =
     \<lparr>modelNode = None, movingPointNode = None, boundaryROI = None, gravityVector = None,
      gravityMagnitude = 1, dt = 1 / 100, currentStep = 0, totalSteps = - 1\<rparr>"

definition tetraSession :: "int \<Rightarrow> SimulationSession" where
  "tetraSession budget =
     newLogic (emptyParameterNode\<lparr>modelNode := Some tetraModel, totalSteps := budget\<rparr>)"

text \<open>
  Invariants of the session: \<open>syncOk\<close> says that no transform can fail on the parameter
  node's entities (the moving point has a first control point; the model node has an
  unstructured grid whose cell array parses); \<open>settled\<close> adds that the once-guard is set
  exactly if the model node is present.
\<close>

definition syncOk :: "ParameterNode \<Rightarrow> bool" where
  "syncOk pn =
     ((case movingPointNode pn of None \<Rightarrow> True | Some f \<Rightarrow> controlPoints f \<noteq> [])
      \<and> (case modelNode pn of
            None \<Rightarrow> True
          | Some m \<Rightarrow>
              (case GetUnstructuredGrid m of
                 None \<Rightarrow> False
               | Some g \<Rightarrow>
                   (case parseCells (numberOfCells g) (cellData g) 0 [] of
                      Inl e \<Rightarrow> False
                    | Inr c \<Rightarrow> True))))"

definition settled :: "SimulationSession \<Rightarrow> bool" where
  "settled s =
     (syncOk (parameterNode s) \<and> onceGuard s = (modelNode (parameterNode s) \<noteq> None))"

section \<open>Properties\<close>

subsection \<open>Absent entities\<close>

lemma toEngine_absent_noop:
  "markupsROIToSofaROI (pn\<lparr>boundaryROI := None\<rparr>) sofaNode = Inr sofaNode"
  "markupsLineToGravityVector (pn\<lparr>gravityVector := None\<rparr>) sofaNode = Inr sofaNode"
  "modelNodetoSofaNode (pn\<lparr>modelNode := None\<rparr>) sofaNode = Inr sofaNode"
  "markupsFiducialNodeToSofaPoint (pn\<lparr>movingPointNode := None\<rparr>) sofaNode = Inr sofaNode"
  by (simp_all add: markupsROIToSofaROI_def markupsLineToGravityVector_def
      modelNodetoSofaNode_def markupsFiducialNodeToSofaPoint_def)

text \<open>
  C1. The four to-engine transforms return the engine node unchanged when their entity is
  \<^verbatim>\<open>None\<close> (lemma \<open>toEngine_absent_noop\<close>), but the from-engine transform
  \<^verbatim>\<open>sofaNodeToModelNode\<close> is no silent no-op there: with an absent model node it
  raises \<^verbatim>\<open>AttributeError\<close>, for every engine node.
\<close>

theorem sofaNodeToModelNode_absent_raises:
  "sofaNodeToModelNode (pn\<lparr>modelNode := None\<rparr>) sofaNode = Inl AttributeError"
  by (simp add: sofaNodeToModelNode_def)

subsection \<open>The line marker and gravity\<close>

lemma vdiv_eq_scale: "m \<noteq> 0 \<Longrightarrow> vdiv v m = Inr (vscale v (1 / m))"
  by (cases v) simp

lemma markupsLineToGravityVector_eq:
  "markupsLineToGravityVector pn sofaNode =
     (case gravityVector pn of
        None \<Rightarrow> Inr sofaNode
      | Some lineNode \<Rightarrow>
          Inr (sofaNode\<lparr>gravity :=
                 vscale (spec_normalize (vsub (endpoint1 lineNode) (endpoint0 lineNode)))
                   (of_int (gravityMagnitude pn))\<rparr>))"
proof (cases "gravityVector pn")
  case None
  then show ?thesis by (simp add: markupsLineToGravityVector_def)
next
  case (Some lineNode)
  let ?gv = "vsub (endpoint1 lineNode) (endpoint0 lineNode)"
  show ?thesis
  proof (cases "vnorm ?gv = 0")
    case True
    with Some show ?thesis
      by (simp add: markupsLineToGravityVector_def arrayVectorFromMarkupsLinePoints_def
          spec_normalize_def Let_def del: vnorm.simps)
  next
    case False
    with Some show ?thesis
      by (simp add: markupsLineToGravityVector_def arrayVectorFromMarkupsLinePoints_def
          spec_normalize_def Let_def vdiv_eq_scale del: vnorm.simps)
  qed
qed

text \<open>
  C2. For a line marker with endpoints \<open>p0\<close> and \<open>p1\<close> and gravity magnitude \<open>m\<close>, the
  line-to-gravity transform writes \<open>normalize (p1 - p0) * m\<close> into the engine node's
  gravity; for the endpoints \<open>(0,-1,0)\<close>, \<open>(0,1,0)\<close> and magnitude 10 this is \<open>(0,10,0)\<close>.
\<close>

theorem markupsLineToGravityVector_formula:
  "markupsLineToGravityVector
     (pn\<lparr>gravityVector := Some \<lparr>endpoint0 = p0, endpoint1 = p1\<rparr>, gravityMagnitude := m\<rparr>) sofaNode
   = Inr (sofaNode\<lparr>gravity := vscale (spec_normalize (vsub p1 p0)) (of_int m)\<rparr>)
   \<and> markupsLineToGravityVector
     (pn\<lparr>gravityVector := Some \<lparr>endpoint0 = (0, - 1, 0), endpoint1 = (0, 1, 0)\<rparr>,
         gravityMagnitude := 10\<rparr>) sofaNode
   = Inr (sofaNode\<lparr>gravity := (0, 10, 0)\<rparr>)"
  by (simp add: markupsLineToGravityVector_eq spec_normalize_def)

text \<open>
  C3. Normalising the zero vector gives the zero vector; the line-to-gravity transform
  never fails (so never with a division by zero), and a line marker whose endpoints
  coincide yields the zero gravity vector for every magnitude.
\<close>

theorem coincident_endpoints_zero_gravity:
  "spec_normalize (0, 0, 0) = (0, 0, 0)
   \<and> (\<exists>sofaNode'. markupsLineToGravityVector pn sofaNode = Inr sofaNode')
   \<and> markupsLineToGravityVector
        (pn\<lparr>gravityVector := Some \<lparr>endpoint0 = p, endpoint1 = p\<rparr>, gravityMagnitude := m\<rparr>) sofaNode
      = Inr (sofaNode\<lparr>gravity := (0, 0, 0)\<rparr>)"
proof (intro conjI)
  show "spec_normalize (0, 0, 0) = (0, 0, 0)"
    by (simp add: spec_normalize_def)
  show "\<exists>sofaNode'. markupsLineToGravityVector pn sofaNode = Inr sofaNode'"
    by (simp add: markupsLineToGravityVector_eq split: option.split)
  show "markupsLineToGravityVector
        (pn\<lparr>gravityVector := Some \<lparr>endpoint0 = p, endpoint1 = p\<rparr>, gravityMagnitude := m\<rparr>) sofaNode
      = Inr (sofaNode\<lparr>gravity := (0, 0, 0)\<rparr>)"
    by (cases p) (simp add: markupsLineToGravityVector_eq spec_normalize_def)
qed

subsection \<open>The point marker\<close>

text \<open>
  C7. For a point marker that is set and has a first control point \<open>(x, y, z)\<close>, the
  transform writes into the engine node's position one flat list, the coordinate list
  \<open>[x, y, z]\<close> repeated three times.
\<close>

theorem markupsFiducialNodeToSofaPoint_triple:
  "markupsFiducialNodeToSofaPoint
     (pn\<lparr>movingPointNode := Some \<lparr>controlPoints = (x, y, z) # rest\<rparr>\<rparr>) sofaNode
   = Inr (sofaNode\<lparr>position := [[x, y, z] @ [x, y, z] @ [x, y, z]]\<rparr>)"
  by (simp add: markupsFiducialNodeToSofaPoint_def GetNthControlPointPosition_def
      list_repeat_def numeral_3_eq_3)

subsection \<open>Resetting the parameter node\<close>

text \<open>
  C10. After \<^verbatim>\<open>resetParameterNode\<close> the four entity references are \<^verbatim>\<open>None\<close>,
  \<open>dt = 0.01\<close>, \<open>currentStep = 0\<close> and \<open>totalSteps = -1\<close>; \<open>gravityMagnitude\<close> keeps its
  prior value, which is 1 when it was the class default.
\<close>

theorem resetParameterNode_fields:
  "\<exists>pn'. resetParameterNode (Some pn) = Some pn'
     \<and> modelNode pn' = None \<and> boundaryROI pn' = None
     \<and> gravityVector pn' = None \<and> movingPointNode pn' = None
     \<and> dt pn' = 1 / 100 \<and> currentStep pn' = 0 \<and> totalSteps pn' = - 1
     \<and> gravityMagnitude pn' = gravityMagnitude pn
     \<and> (\<exists>pn''. resetParameterNode (Some (classDefaults pn)) = Some pn''
            \<and> gravityMagnitude pn'' = 1)"
  by (simp add: resetParameterNode_def classDefaults_def)


subsection \<open>Nearest point\<close>

text \<open>
  The invariant of the locator's scan: either no point has been met yet, or the best
  point is one of the ids met so far, at most as far as each of them and strictly nearer
  than each of those met before it.
\<close>

lemma closestFrom_reached:
  assumes "(c = - 1 \<and> (\<forall>j\<in>set pre. \<not> j < length pts))
     \<or> (\<exists>i pre1 post1. c = int i \<and> i < length pts \<and> d = dist2 (pts ! i) q
           \<and> pre = pre1 @ i # post1
           \<and> (\<forall>j\<in>set pre1. j < length pts \<longrightarrow> dist2 (pts ! i) q < dist2 (pts ! j) q)
           \<and> (\<forall>j\<in>set pre. j < length pts \<longrightarrow> dist2 (pts ! i) q \<le> dist2 (pts ! j) q))"
  shows "(closestFrom pts q ids c d = - 1 \<and> (\<forall>j\<in>set (pre @ ids). \<not> j < length pts))
     \<or> (\<exists>i pre1 post1. closestFrom pts q ids c d = int i \<and> i < length pts
           \<and> pre @ ids = pre1 @ i # post1
           \<and> (\<forall>j\<in>set pre1. j < length pts \<longrightarrow> dist2 (pts ! i) q < dist2 (pts ! j) q)
           \<and> (\<forall>j\<in>set (pre @ ids). j < length pts
                  \<longrightarrow> dist2 (pts ! i) q \<le> dist2 (pts ! j) q))"
  using assms
proof (induction ids arbitrary: pre c d)
  case Nil
  then show ?case
  proof (elim disjE exE conjE)
    assume "c = - 1" "\<forall>j\<in>set pre. \<not> j < length pts"
    then show ?thesis by simp
  next
    fix i pre1 post1
    assume h: "c = int i" "i < length pts" "pre = pre1 @ i # post1"
      "\<forall>j\<in>set pre1. j < length pts \<longrightarrow> dist2 (pts ! i) q < dist2 (pts ! j) q"
      "\<forall>j\<in>set pre. j < length pts \<longrightarrow> dist2 (pts ! i) q \<le> dist2 (pts ! j) q"
    have "closestFrom pts q [] c d = int i \<and> i < length pts
           \<and> pre @ [] = pre1 @ i # post1
           \<and> (\<forall>j\<in>set pre1. j < length pts \<longrightarrow> dist2 (pts ! i) q < dist2 (pts ! j) q)
           \<and> (\<forall>j\<in>set (pre @ []). j < length pts
                  \<longrightarrow> dist2 (pts ! i) q \<le> dist2 (pts ! j) q)"
      using h by simp
    then show ?thesis by (intro disjI2 exI)
  qed
next
  case (Cons p ids)
  let ?D = "\<lambda>j. dist2 (pts ! j) q"
  let ?pre = "pre @ [p]"
  have app: "?pre @ ids = pre @ p # ids" by simp
  show ?case
  proof (cases "p < length pts \<and> (c = - 1 \<or> ?D p < d)")
    case True
    then have valid: "p < length pts" and better: "c = - 1 \<or> ?D p < d" by simp_all
    have step: "closestFrom pts q (p # ids) c d = closestFrom pts q ids (int p) (?D p)"
      by (simp only: closestFrom.simps(2) True if_True simp_thms)
    have before: "\<forall>j\<in>set pre. j < length pts \<longrightarrow> ?D p < ?D j"
      using Cons.prems
    proof (elim disjE exE conjE)
      assume "\<forall>j\<in>set pre. \<not> j < length pts"
      then show ?thesis by simp
    next
      fix i pre1 post1
      assume h: "c = int i" "d = ?D i"
        "\<forall>j\<in>set pre. j < length pts \<longrightarrow> ?D i \<le> ?D j"
      from better h(1) have "?D p < d" by simp
      then have lt: "?D p < ?D i" unfolding h(2) .
      show ?thesis
      proof (intro ballI impI)
        fix j assume "j \<in> set pre" "j < length pts"
        with h(3) have "?D i \<le> ?D j" by simp
        with lt show "?D p < ?D j" by simp
      qed
    qed
    have all: "\<forall>j\<in>set ?pre. j < length pts \<longrightarrow> ?D p \<le> ?D j"
    proof (intro ballI impI)
      fix j assume j: "j \<in> set ?pre" "j < length pts"
      then have "j \<in> set pre \<or> j = p" by auto
      then show "?D p \<le> ?D j"
      proof
        assume "j \<in> set pre"
        with before j(2) have "?D p < ?D j" by simp
        then show ?thesis by simp
      next
        assume "j = p" then show ?thesis by simp
      qed
    qed
    have inv: "(int p = - 1 \<and> (\<forall>j\<in>set ?pre. \<not> j < length pts))
     \<or> (\<exists>i pre1 post1. int p = int i \<and> i < length pts \<and> ?D p = dist2 (pts ! i) q
           \<and> ?pre = pre1 @ i # post1
           \<and> (\<forall>j\<in>set pre1. j < length pts \<longrightarrow> dist2 (pts ! i) q < dist2 (pts ! j) q)
           \<and> (\<forall>j\<in>set ?pre. j < length pts \<longrightarrow> dist2 (pts ! i) q \<le> dist2 (pts ! j) q))"
    proof (rule disjI2, rule exI [of _ p], rule exI [of _ pre], rule exI [of _ "[]"], intro conjI)
      show "int p = int p" by simp
      show "p < length pts" by (rule valid)
      show "?D p = dist2 (pts ! p) q" by simp
      show "?pre = pre @ p # []" by simp
      show "\<forall>j\<in>set pre. j < length pts \<longrightarrow> dist2 (pts ! p) q < dist2 (pts ! j) q"
        by (rule before)
      show "\<forall>j\<in>set ?pre. j < length pts \<longrightarrow> dist2 (pts ! p) q \<le> dist2 (pts ! j) q"
        by (rule all)
    qed
    from Cons.IH [OF inv] show ?thesis unfolding step app .
  next
    case False
    have step: "closestFrom pts q (p # ids) c d = closestFrom pts q ids c d"
      by (simp only: closestFrom.simps(2) False if_False simp_thms)
    have inv: "(c = - 1 \<and> (\<forall>j\<in>set ?pre. \<not> j < length pts))
     \<or> (\<exists>i pre1 post1. c = int i \<and> i < length pts \<and> d = dist2 (pts ! i) q
           \<and> ?pre = pre1 @ i # post1
           \<and> (\<forall>j\<in>set pre1. j < length pts \<longrightarrow> dist2 (pts ! i) q < dist2 (pts ! j) q)
           \<and> (\<forall>j\<in>set ?pre. j < length pts \<longrightarrow> dist2 (pts ! i) q \<le> dist2 (pts ! j) q))"
      using Cons.prems
    proof (elim disjE exE conjE)
      assume h: "c = - 1" "\<forall>j\<in>set pre. \<not> j < length pts"
      with False have "\<not> p < length pts" by simp
      with h have "c = - 1 \<and> (\<forall>j\<in>set ?pre. \<not> j < length pts)" by simp
      then show ?thesis by (rule disjI1)
    next
      fix i pre1 post1
      assume h: "c = int i" "i < length pts" "d = ?D i" "pre = pre1 @ i # post1"
        "\<forall>j\<in>set pre1. j < length pts \<longrightarrow> ?D i < ?D j"
        "\<forall>j\<in>set pre. j < length pts \<longrightarrow> ?D i \<le> ?D j"
      from h(1) have cne: "c \<noteq> - 1" by simp
      have last: "p < length pts \<longrightarrow> ?D i \<le> ?D p"
        using False cne unfolding h(3) by auto
      have all: "\<forall>j\<in>set ?pre. j < length pts \<longrightarrow> ?D i \<le> ?D j"
      proof (intro ballI impI)
        fix j assume j: "j \<in> set ?pre" "j < length pts"
        then have "j \<in> set pre \<or> j = p" by auto
        then show "?D i \<le> ?D j"
        proof
          assume "j \<in> set pre" with h(6) j(2) show ?thesis by simp
        next
          assume "j = p" with last j(2) show ?thesis by simp
        qed
      qed
      show ?thesis
      proof (rule disjI2, rule exI [of _ i], rule exI [of _ pre1],
          rule exI [of _ "post1 @ [p]"], intro conjI)
        show "c = int i" by (rule h(1))
        show "i < length pts" by (rule h(2))
        show "d = ?D i" by (rule h(3))
        show "?pre = pre1 @ i # post1 @ [p]" unfolding h(4) by simp
        show "\<forall>j\<in>set pre1. j < length pts \<longrightarrow> ?D i < ?D j" by (rule h(5))
        show "\<forall>j\<in>set ?pre. j < length pts \<longrightarrow> ?D i \<le> ?D j" by (rule all)
      qed
    qed
    from Cons.IH [OF inv] show ?thesis unfolding step app .
  qed
qed

lemma nearestPoint_first_minimum:
  assumes ne: "points mesh \<noteq> []"
    and cover: "\<forall>j<length (points mesh). j \<in> set visitOrder"
  shows "\<exists>i pre1 post1. nearestPoint visitOrder outOfRange mesh q = (int i, points mesh ! i)
         \<and> i < length (points mesh)
         \<and> (\<forall>j<length (points mesh). dist2 (points mesh ! i) q \<le> dist2 (points mesh ! j) q)
         \<and> visitOrder = pre1 @ i # post1
         \<and> (\<forall>j\<in>set pre1. j < length (points mesh)
               \<longrightarrow> dist2 (points mesh ! i) q < dist2 (points mesh ! j) q)"
proof -
  let ?pts = "points mesh"
  let ?r = "closestFrom ?pts q visitOrder (- 1) 0"
  from ne have pos: "0 < length ?pts" by simp
  have find: "FindClosestPoint visitOrder ?pts q = ?r"
    using pos by (simp add: FindClosestPoint_def)
  have init: "((- 1 :: int) = - 1 \<and> (\<forall>j\<in>set []. \<not> j < length ?pts))
     \<or> (\<exists>i pre1 post1. (- 1 :: int) = int i \<and> i < length ?pts \<and> (0 :: real) = dist2 (?pts ! i) q
           \<and> [] = pre1 @ i # post1
           \<and> (\<forall>j\<in>set pre1. j < length ?pts \<longrightarrow> dist2 (?pts ! i) q < dist2 (?pts ! j) q)
           \<and> (\<forall>j\<in>set []. j < length ?pts \<longrightarrow> dist2 (?pts ! i) q \<le> dist2 (?pts ! j) q))"
    by simp
  note fin = closestFrom_reached [OF init, of visitOrder]
  from cover pos have "0 \<in> set visitOrder" by simp
  with pos have "\<not> (\<forall>j\<in>set ([] @ visitOrder). \<not> j < length ?pts)" by auto
  with fin have "\<exists>i pre1 post1. ?r = int i \<and> i < length ?pts
           \<and> [] @ visitOrder = pre1 @ i # post1
           \<and> (\<forall>j\<in>set pre1. j < length ?pts \<longrightarrow> dist2 (?pts ! i) q < dist2 (?pts ! j) q)
           \<and> (\<forall>j\<in>set ([] @ visitOrder). j < length ?pts
                  \<longrightarrow> dist2 (?pts ! i) q \<le> dist2 (?pts ! j) q)"
    by (elim disjE conjE) (simp, assumption)
  then obtain i pre1 post1 where
    x: "?r = int i \<and> i < length ?pts
           \<and> [] @ visitOrder = pre1 @ i # post1
           \<and> (\<forall>j\<in>set pre1. j < length ?pts \<longrightarrow> dist2 (?pts ! i) q < dist2 (?pts ! j) q)
           \<and> (\<forall>j\<in>set ([] @ visitOrder). j < length ?pts
                  \<longrightarrow> dist2 (?pts ! i) q \<le> dist2 (?pts ! j) q)"
    by (elim exE)
  from x have r: "?r = int i" by (elim conjE)
  from x have il: "i < length ?pts" by (elim conjE)
  from x have vo: "visitOrder = pre1 @ i # post1" by (elim conjE) simp
  from x have first: "\<forall>j\<in>set pre1. j < length ?pts
      \<longrightarrow> dist2 (?pts ! i) q < dist2 (?pts ! j) q" by (elim conjE)
  from x have allv: "\<forall>j\<in>set visitOrder. j < length ?pts
      \<longrightarrow> dist2 (?pts ! i) q \<le> dist2 (?pts ! j) q" by (elim conjE) simp
  have least: "\<forall>j<length ?pts. dist2 (?pts ! i) q \<le> dist2 (?pts ! j) q"
  proof (intro allI impI)
    fix j assume j: "j < length ?pts"
    with cover have "j \<in> set visitOrder" by simp
    with allv j show "dist2 (?pts ! i) q \<le> dist2 (?pts ! j) q" by simp
  qed
  have np: "nearestPoint visitOrder outOfRange mesh q = (int i, ?pts ! i)"
    using il by (simp add: nearestPoint_def Let_def find r GetPoint_def)
  show ?thesis
    by (intro exI [of _ i] exI [of _ pre1] exI [of _ post1] conjI) (rule np il least vo first)+
qed

text \<open>
  C8, as the claim states it, fails: on an exact tie the lookup does not return the lowest
  point index. Six points on the x axis, with VTK's three points per bucket, fall into two
  buckets that split the bounds \<open>[0, 10]\<close> at \<open>5\<close>: ids 0, 1, 3 below and ids 2, 4, 5
  above. The query point \<open>(5.5,0,0)\<close> lies in the upper bucket, which is searched first,
  and then the lower one. Points 0 and 5 are both at squared distance \<open>1\<close> of the query
  point, and the lookup returns index 5.
\<close>

theorem nearestPoint_tie_counterexample:
  "nearestPoint [2, 4, 5, 0, 1, 3] (0, 0, 0)
     \<lparr>points = [(9 / 2, 0, 0), (0, 0, 0), (10, 0, 0), (1, 0, 0), (9, 0, 0), (13 / 2, 0, 0)],
      cellData = [], numberOfCells = 0\<rparr>
     (11 / 2, 0, 0) = (5, (13 / 2, 0, 0))
   \<and> dist2 (9 / 2, 0, 0) (11 / 2, 0, 0) = dist2 (13 / 2, 0, 0) (11 / 2, 0, 0)"
  by (simp add: nearestPoint_def FindClosestPoint_def GetPoint_def Let_def)

text \<open>
  C8, amended. For every mesh with at least one point and every query point, the search
  order listing every point of the mesh, the lookup returns the index and the coordinates
  of a mesh point at minimal distance of the query point; of the points at that distance
  it is the one the search reaches first, every point reached before it being strictly
  farther, and it need not have the lowest index. On the mesh with points
  \<open>[(0,0,0),(1,0,0),(2,0,0)]\<close> and the query point \<open>(1.4,0,0)\<close> it returns index 1,
  the point \<open>(1,0,0)\<close>, in whatever order the points are searched.
\<close>

theorem nearestPoint_minimal_distance:
  "(points mesh \<noteq> [] \<and> (\<forall>j<length (points mesh). j \<in> set visitOrder) \<longrightarrow>
      (\<exists>i pre1 post1. nearestPoint visitOrder outOfRange mesh q = (int i, points mesh ! i)
         \<and> i < length (points mesh)
         \<and> (\<forall>j<length (points mesh). dist2 (points mesh ! i) q \<le> dist2 (points mesh ! j) q)
         \<and> visitOrder = pre1 @ i # post1
         \<and> (\<forall>j\<in>set pre1. j < length (points mesh)
               \<longrightarrow> dist2 (points mesh ! i) q < dist2 (points mesh ! j) q)))
   \<and> ((\<forall>j<3. j \<in> set visitOrder) \<longrightarrow>
        nearestPoint visitOrder outOfRange
          \<lparr>points = [(0, 0, 0), (1, 0, 0), (2, 0, 0)], cellData = cs, numberOfCells = nc\<rparr>
          (14 / 10, 0, 0) = (1, (1, 0, 0)))"
proof (intro conjI impI)
  assume "points mesh \<noteq> [] \<and> (\<forall>j<length (points mesh). j \<in> set visitOrder)"
  then have ne: "points mesh \<noteq> []"
    and cover: "\<forall>j<length (points mesh). j \<in> set visitOrder" by simp_all
  show "\<exists>i pre1 post1. nearestPoint visitOrder outOfRange mesh q = (int i, points mesh ! i)
         \<and> i < length (points mesh)
         \<and> (\<forall>j<length (points mesh). dist2 (points mesh ! i) q \<le> dist2 (points mesh ! j) q)
         \<and> visitOrder = pre1 @ i # post1
         \<and> (\<forall>j\<in>set pre1. j < length (points mesh)
               \<longrightarrow> dist2 (points mesh ! i) q < dist2 (points mesh ! j) q)"
    by (rule nearestPoint_first_minimum [OF ne cover])
next
  let ?m = "\<lparr>points = [(0, 0, 0), (1, 0, 0), (2, 0, 0)], cellData = cs, numberOfCells = nc\<rparr>"
  let ?q = "(14 / 10, 0, 0) :: vec3"
  assume c3: "\<forall>j<3. j \<in> set visitOrder"
  have ne: "points ?m \<noteq> []" by simp
  have cover: "\<forall>j<length (points ?m). j \<in> set visitOrder" using c3 by simp
  from nearestPoint_first_minimum [OF ne cover, of outOfRange ?q] obtain i pre1 post1 where
    x: "nearestPoint visitOrder outOfRange ?m ?q = (int i, points ?m ! i)
         \<and> i < length (points ?m)
         \<and> (\<forall>j<length (points ?m). dist2 (points ?m ! i) ?q \<le> dist2 (points ?m ! j) ?q)
         \<and> visitOrder = pre1 @ i # post1
         \<and> (\<forall>j\<in>set pre1. j < length (points ?m)
               \<longrightarrow> dist2 (points ?m ! i) ?q < dist2 (points ?m ! j) ?q)"
    by (elim exE)
  from x have np: "nearestPoint visitOrder outOfRange ?m ?q = (int i, points ?m ! i)"
    by (elim conjE)
  from x have il: "i < 3" by (elim conjE) simp
  from x have least: "\<forall>j<length (points ?m). dist2 (points ?m ! i) ?q \<le> dist2 (points ?m ! j) ?q"
    by (elim conjE)
  have "(1 :: nat) < length (points ?m)" by simp
  with least have l1: "dist2 (points ?m ! i) ?q \<le> dist2 (points ?m ! 1) ?q" by blast
  from il have "i = 0 \<or> i = 1 \<or> i = 2" by arith
  then have "i = 1"
  proof (elim disjE)
    assume "i = 0" with l1 show ?thesis by simp
  next
    assume "i = 1" then show ?thesis .
  next
    assume "i = 2" with l1 show ?thesis by simp
  qed
  with np show "nearestPoint visitOrder outOfRange ?m ?q = (1, (1, 0, 0))" by simp
qed

theorem nearestPoint_minimal_distance_witness:
  "(\<exists>i pre1 post1.
       nearestPoint [0, 1, 2] (0, 0, 0)
         \<lparr>points = [(0, 0, 0), (1, 0, 0), (2, 0, 0)], cellData = [], numberOfCells = 0\<rparr>
         (14 / 10, 0, 0)
       = (int i, points \<lparr>points = [(0, 0, 0), (1, 0, 0), (2, 0, 0)], cellData = [], numberOfCells = 0\<rparr> ! i)
       \<and> i < length (points \<lparr>points = [(0, 0, 0), (1, 0, 0), (2, 0, 0)], cellData = [], numberOfCells = 0\<rparr>)
       \<and> (\<forall>j<length (points \<lparr>points = [(0, 0, 0), (1, 0, 0), (2, 0, 0)], cellData = [], numberOfCells = 0\<rparr>).
              dist2 (points \<lparr>points = [(0, 0, 0), (1, 0, 0), (2, 0, 0)], cellData = [], numberOfCells = 0\<rparr> ! i) (14 / 10, 0, 0)
              \<le> dist2 (points \<lparr>points = [(0, 0, 0), (1, 0, 0), (2, 0, 0)], cellData = [], numberOfCells = 0\<rparr> ! j) (14 / 10, 0, 0))
       \<and> [0, 1, 2] = pre1 @ i # post1
       \<and> (\<forall>j\<in>set pre1. j < length (points \<lparr>points = [(0, 0, 0), (1, 0, 0), (2, 0, 0)], cellData = [], numberOfCells = 0\<rparr>)
             \<longrightarrow> dist2 (points \<lparr>points = [(0, 0, 0), (1, 0, 0), (2, 0, 0)], cellData = [], numberOfCells = 0\<rparr> ! i) (14 / 10, 0, 0)
                 < dist2 (points \<lparr>points = [(0, 0, 0), (1, 0, 0), (2, 0, 0)], cellData = [], numberOfCells = 0\<rparr> ! j) (14 / 10, 0, 0)))
   \<and> nearestPoint [0, 1, 2] (0, 0, 0)
        \<lparr>points = [(0, 0, 0), (1, 0, 0), (2, 0, 0)], cellData = [], numberOfCells = 0\<rparr>
        (14 / 10, 0, 0) = (1, (1, 0, 0))"
proof -
  let ?m = "\<lparr>points = [(0, 0, 0), (1, 0, 0), (2, 0, 0)], cellData = [], numberOfCells = 0\<rparr>"
  have h: "\<forall>j<3. j \<in> set [0, 1, 2 :: nat]"
  proof (intro allI impI)
    fix j :: nat assume "j < 3"
    then have "j = 0 \<or> j = 1 \<or> j = 2" by arith
    then show "j \<in> set [0, 1, 2]" by auto
  qed
  then have h1: "points ?m \<noteq> [] \<and> (\<forall>j<length (points ?m). j \<in> set [0, 1, 2 :: nat])"
    by simp
  note t = nearestPoint_minimal_distance
    [where mesh = ?m and visitOrder = "[0, 1, 2]" and outOfRange = "(0, 0, 0)"
       and q = "(14 / 10, 0, 0)" and cs = "[]" and nc = 0]
  note e = mp [OF conjunct1 [OF t] h1]
  note s = mp [OF conjunct2 [OF t] h]
  show ?thesis by (rule conjI [OF e s])
qed

text \<open>The marker that \<^verbatim>\<open>addFiducialToClosestPoint\<close> returns holds the point looked up.\<close>

lemma addFiducialToClosestPoint_at_nearest:
  "modelNode pn = Some m \<Longrightarrow> meshOfModelNode m = Some mesh \<Longrightarrow>
   nearestPoint visitOrder outOfRange mesh q = (i, p) \<Longrightarrow>
   addFiducialToClosestPoint visitOrder outOfRange pn modelNodeArg q
     = Inr \<lparr>controlPoints = [p]\<rparr>"
  by (simp add: addFiducialToClosestPoint_def)


subsection \<open>The region built from the bounds of the mesh\<close>

text \<open>
  C9, as the claim states it, fails: from a mesh with no points, whose bounds VTK reports
  as \<open>(1, -1, 1, -1, 1, -1)\<close>, \<^verbatim>\<open>addBoundaryROI\<close> builds a region with centre
  \<open>(0,0,0)\<close> and half-extents \<open>(1,1,1)\<close> and binds it to the parameter node.
\<close>

theorem addBoundaryROI_empty_mesh_counterexample:
  "boundaryROI
     (addBoundaryROI vtkGetBounds \<lparr>center = (0, 0, 0), radius = (0, 0, 0)\<rparr>
        \<lparr>modelNode = Some \<lparr>GetUnstructuredGrid =
                              Some \<lparr>points = [], cellData = [], numberOfCells = 0\<rparr>,
                            GetPolyData = None\<rparr>,
         movingPointNode = None, boundaryROI = None, gravityVector = None,
         gravityMagnitude = 1, dt = 1 / 100, currentStep = 0, totalSteps = - 1\<rparr>)
   = Some \<lparr>center = (0, 0, 0), radius = (1, 1, 1)\<rparr>"
  by (simp add: addBoundaryROI_def meshOfModelNode_def vtkGetBounds_def)

text \<open>
  C9, amended. \<^verbatim>\<open>addBoundaryROI\<close> has no empty-geometry failure: whatever the bounds
  query reports, it binds a region to \<open>boundaryROI\<close>. Without a mesh this is the new
  region as created; with a mesh (with or without points) its centre is the midpoint of
  the reported bounds and its half-extents are half their absolute extents.
\<close>

theorem addBoundaryROI_always_region:
  "\<exists>roi. boundaryROI (addBoundaryROI GetBounds roiNode pn) = Some roi
     \<and> ((\<forall>m. modelNode pn = Some m \<longrightarrow> meshOfModelNode m = None) \<longrightarrow> roi = roiNode)
     \<and> (\<forall>m mesh b0 b1 b2 b3 b4 b5.
           modelNode pn = Some m \<and> meshOfModelNode m = Some mesh
           \<and> GetBounds mesh = (b0, b1, b2, b3, b4, b5) \<longrightarrow>
           center roi = ((b0 + b1) / 2, (b2 + b3) / 2, (b4 + b5) / 2)
           \<and> radius roi = (\<bar>b1 - b0\<bar> / 2, \<bar>b3 - b2\<bar> / 2, \<bar>b5 - b4\<bar> / 2))"
  by (auto simp: addBoundaryROI_def Let_def split: option.splits prod.splits)

theorem addBoundaryROI_always_region_witness:
  "\<exists>roi. boundaryROI
       (addBoundaryROI vtkGetBounds \<lparr>center = (0, 0, 0), radius = (0, 0, 0)\<rparr>
          \<lparr>modelNode = Some \<lparr>GetUnstructuredGrid = None,
                              GetPolyData = Some \<lparr>points = [(0, 0, 0), (2, 4, 6)],
                                                  cellData = [], numberOfCells = 0\<rparr>\<rparr>,
           movingPointNode = None, boundaryROI = None, gravityVector = None,
           gravityMagnitude = 1, dt = 1 / 100, currentStep = 0, totalSteps = - 1\<rparr>) = Some roi
     \<and> center roi = (1, 2, 3) \<and> radius roi = (1, 2, 3)"
  using addBoundaryROI_always_region [of vtkGetBounds "\<lparr>center = (0, 0, 0), radius = (0, 0, 0)\<rparr>"
      "\<lparr>modelNode = Some \<lparr>GetUnstructuredGrid = None,
                              GetPolyData = Some \<lparr>points = [(0, 0, 0), (2, 4, 6)],
                                                  cellData = [], numberOfCells = 0\<rparr>\<rparr>,
           movingPointNode = None, boundaryROI = None, gravityVector = None,
           gravityMagnitude = 1, dt = 1 / 100, currentStep = 0, totalSteps = - 1\<rparr>"]
  by (simp add: meshOfModelNode_def vtkGetBounds_def)


subsection \<open>The session: what start and step preserve\<close>

lemma roi_ok: "\<exists>n. markupsROIToSofaROI pn e = Inr n"
  by (simp add: markupsROIToSofaROI_def split: option.split)

lemma line_ok: "\<exists>n. markupsLineToGravityVector pn e = Inr n"
  by (simp add: markupsLineToGravityVector_eq split: option.split)

lemma fiducial_ok_iff:
  "(\<exists>n. markupsFiducialNodeToSofaPoint pn e = Inr n) \<longleftrightarrow>
   (case movingPointNode pn of None \<Rightarrow> True | Some f \<Rightarrow> controlPoints f \<noteq> [])"
  by (auto simp: markupsFiducialNodeToSofaPoint_def GetNthControlPointPosition_def
      split: option.splits)

lemma model_ok_iff:
  "(\<exists>n. modelNodetoSofaNode pn e = Inr n) \<longleftrightarrow>
   (case modelNode pn of
            None \<Rightarrow> True
          | Some m \<Rightarrow>
              (case GetUnstructuredGrid m of
                 None \<Rightarrow> False
               | Some g \<Rightarrow>
                   (case parseCells (numberOfCells g) (cellData g) 0 [] of
                      Inl e \<Rightarrow> False
                    | Inr c \<Rightarrow> True)))"
  by (auto simp: modelNodetoSofaNode_def Let_def split: option.splits sum.splits)

lemma runToEngine_result:
  "runToEngine pn g e = Inr (e', g', k) \<Longrightarrow>
   g' = (g \<or> modelNode pn \<noteq> None) \<and> k = (if \<not> g \<and> modelNode pn \<noteq> None then 1 else 0)"
  by (auto simp: runToEngine_def RunOnce_modelNodetoSofaNode_def
      split: sum.splits option.splits if_splits prod.splits)

lemma runToEngine_fresh_ok: "runToEngine pn False e = Inr r \<Longrightarrow> syncOk pn"
proof -
  assume a: "runToEngine pn False e = Inr r"
  then obtain n1 g1 k1 where r1: "RunOnce_modelNodetoSofaNode pn False e = Inr (n1, g1, k1)"
    by (auto simp: runToEngine_def split: sum.splits prod.splits)
  with a obtain n2 where r2: "markupsFiducialNodeToSofaPoint pn n1 = Inr n2"
    by (auto simp: runToEngine_def split: sum.splits prod.splits)
  from r1 have "\<exists>n. modelNodetoSofaNode pn e = Inr n"
    by (auto simp: RunOnce_modelNodetoSofaNode_def modelNodetoSofaNode_def
        split: option.splits sum.splits)
  then have m: "case modelNode pn of
            None \<Rightarrow> True
          | Some m \<Rightarrow>
              (case GetUnstructuredGrid m of
                 None \<Rightarrow> False
               | Some g \<Rightarrow>
                   (case parseCells (numberOfCells g) (cellData g) 0 [] of
                      Inl e \<Rightarrow> False
                    | Inr c \<Rightarrow> True))"
    by (simp only: model_ok_iff)
  from r2 have "\<exists>n. markupsFiducialNodeToSofaPoint pn n1 = Inr n" by blast
  then have f: "case movingPointNode pn of None \<Rightarrow> True | Some f \<Rightarrow> controlPoints f \<noteq> []"
    by (simp only: fiducial_ok_iff)
  from m f show ?thesis by (simp add: syncOk_def)
qed

lemma runToEngine_ok:
  assumes "syncOk pn"
  shows "\<exists>e'. runToEngine pn g e =
           Inr (e', g \<or> modelNode pn \<noteq> None, if \<not> g \<and> modelNode pn \<noteq> None then 1 else 0)"
proof -
  from assms have "\<exists>n. modelNodetoSofaNode pn e = Inr n"
    by (simp add: model_ok_iff syncOk_def)
  then obtain n0 where n0: "modelNodetoSofaNode pn e = Inr n0" by blast
  then have "\<exists>r. RunOnce_modelNodetoSofaNode pn g e = Inr r"
    by (auto simp: RunOnce_modelNodetoSofaNode_def split: option.split)
  then obtain n1 g1 k1 where r1: "RunOnce_modelNodetoSofaNode pn g e = Inr (n1, g1, k1)"
    by (metis prod_cases3)
  from assms have "\<exists>n. markupsFiducialNodeToSofaPoint pn n1 = Inr n"
    by (simp add: fiducial_ok_iff syncOk_def)
  then obtain n2 where r2: "markupsFiducialNodeToSofaPoint pn n1 = Inr n2" by blast
  obtain n3 where r3: "markupsROIToSofaROI pn n2 = Inr n3" using roi_ok by blast
  obtain n4 where r4: "markupsLineToGravityVector pn n3 = Inr n4" using line_ok by blast
  have r: "runToEngine pn g e = Inr (n4, g1, k1)"
    by (simp add: runToEngine_def r1 r2 r3 r4)
  from runToEngine_result [OF r] r show ?thesis by simp
qed

lemma runFromEngine_ok:
  assumes "syncOk pn"
  shows "\<exists>pn'. runFromEngine pn e = Inr pn' \<and> syncOk pn'
           \<and> (modelNode pn' = None) = (modelNode pn = None)
           \<and> currentStep pn' = currentStep pn \<and> totalSteps pn' = totalSteps pn"
  using assms
  by (auto simp: runFromEngine_def sofaNodeToModelNode_def syncOk_def Let_def
      split: option.splits sum.splits)

lemma syncOk_currentStep [simp]: "syncOk (pn\<lparr>currentStep := c\<rparr>) = syncOk pn"
  by (simp add: syncOk_def)

lemma start_settled:
  assumes "start s0 = Inr s1"
  shows "settled s1 \<and> phase s1 = Running \<and> phase s0 = Idle
    \<and> currentStep (parameterNode s1) = 0
    \<and> totalSteps (parameterNode s1) = totalSteps (parameterNode s0)
    \<and> modelNode (parameterNode s1) = modelNode (parameterNode s0)
    \<and> onceExecutions s1 =
        onceExecutions s0 + (if modelNode (parameterNode s0) = None then 0 else 1)
    \<and> onceGuard s1 = (modelNode (parameterNode s0) \<noteq> None)"
proof -
  from assms have idle: "phase s0 \<noteq> Running"
    by (auto simp: start_def split: if_splits)
  then have idle': "phase s0 = Idle" by (cases "phase s0") auto
  from assms idle obtain root' g' k where
    r: "runToEngine (parameterNode s0) False (rootNode s0) = Inr (root', g', k)" and
    s1: "s1 = s0\<lparr>phase := Running,
                  parameterNode := (parameterNode s0)\<lparr>currentStep := 0\<rparr>,
                  rootNode := root',
                  engineGraphAttached := True,
                  onceGuard := g',
                  onceExecutions := onceExecutions s0 + k\<rparr>"
    by (auto simp: start_def split: sum.splits prod.splits)
  from runToEngine_fresh_ok [OF r] have ok: "syncOk (parameterNode s0)" .
  from runToEngine_result [OF r] have
    g: "g' = (modelNode (parameterNode s0) \<noteq> None)" and
    k: "k = (if modelNode (parameterNode s0) \<noteq> None then 1 else 0)" by simp_all
  show ?thesis using ok g k idle' by (simp add: s1 settled_def)
qed

lemma step_settled:
  assumes "settled s" "phase s = Running"
  shows "\<exists>s'. step animate s = Inr s' \<and> settled s'
    \<and> currentStep (parameterNode s') = currentStep (parameterNode s) + 1
    \<and> totalSteps (parameterNode s') = totalSteps (parameterNode s)
    \<and> phase s' =
        (if 0 \<le> totalSteps (parameterNode s)
            \<and> totalSteps (parameterNode s) \<le> currentStep (parameterNode s) + 1
         then Idle else Running)
    \<and> onceExecutions s' = onceExecutions s
    \<and> onceGuard s' = onceGuard s"
proof -
  let ?pn = "parameterNode s"
  from assms(1) have ok: "syncOk ?pn" and g: "onceGuard s = (modelNode ?pn \<noteq> None)"
    by (simp_all add: settled_def)
  have gg: "(onceGuard s \<or> modelNode ?pn \<noteq> None) = onceGuard s" using g by blast
  have kk: "(if \<not> onceGuard s \<and> modelNode ?pn \<noteq> None then 1 else 0::nat) = 0"
    using g by auto
  from runToEngine_ok [OF ok, of "onceGuard s" "rootNode s"] obtain e' where
    r0: "runToEngine ?pn (onceGuard s) (rootNode s) =
          Inr (e', onceGuard s \<or> modelNode ?pn \<noteq> None,
               if \<not> onceGuard s \<and> modelNode ?pn \<noteq> None then 1 else 0)"
    by blast
  have r: "runToEngine ?pn (onceGuard s) (rootNode s) = Inr (e', onceGuard s, 0)"
    using r0 unfolding gg kk .
  from runFromEngine_ok [OF ok, of "animate (dt ?pn) e'"] obtain pn' where
    fx: "runFromEngine ?pn (animate (dt ?pn) e') = Inr pn' \<and> syncOk pn'
           \<and> (modelNode pn' = None) = (modelNode ?pn = None)
           \<and> currentStep pn' = currentStep ?pn \<and> totalSteps pn' = totalSteps ?pn" ..
  from fx have f: "runFromEngine ?pn (animate (dt ?pn) e') = Inr pn'" by (rule conjunct1)
  from fx have ok': "syncOk pn'" by (elim conjE)
  from fx have m: "(modelNode pn' = None) = (modelNode ?pn = None)" by (elim conjE)
  from fx have c: "currentStep pn' = currentStep ?pn" by (elim conjE)
  from fx have t: "totalSteps pn' = totalSteps ?pn" by (elim conjE)
  define s' where "s' =
    s\<lparr>phase := (if 0 \<le> totalSteps pn' \<and> totalSteps pn' \<le> currentStep pn' + 1
                 then Idle else Running),
      parameterNode := pn'\<lparr>currentStep := currentStep pn' + 1\<rparr>,
      rootNode := animate (dt ?pn) e',
      onceGuard := onceGuard s,
      onceExecutions := onceExecutions s + 0,
      sequences := sequences s @ [(currentStep pn', snapshotOf pn')]\<rparr>"
  have st: "step animate s = Inr s'"
    unfolding step_def Let_def s'_def
    by (simp add: assms(2) r f)
  have 1: "settled s'"
    using ok' m g by (simp add: settled_def s'_def)
  have 2: "currentStep (parameterNode s') = currentStep ?pn + 1"
    by (simp add: s'_def c)
  have 3: "totalSteps (parameterNode s') = totalSteps ?pn"
    by (simp add: s'_def t)
  have 4: "phase s' =
        (if 0 \<le> totalSteps ?pn \<and> totalSteps ?pn \<le> currentStep ?pn + 1 then Idle else Running)"
    by (simp add: s'_def c t)
  have 5: "onceExecutions s' = onceExecutions s" "onceGuard s' = onceGuard s"
    by (simp_all add: s'_def)
  show ?thesis
    by (rule exI [of _ s']) (simp only: st 1 2 3 4 5 simp_thms)
qed

lemma step_not_running: "phase s = Idle \<Longrightarrow> step animate s = Inl NotRunning"
  by (simp add: step_def)

lemma stepOrKeep_settled:
  assumes "settled s"
  shows "settled (stepOrKeep animate s)
    \<and> onceExecutions (stepOrKeep animate s) = onceExecutions s
    \<and> onceGuard (stepOrKeep animate s) = onceGuard s"
proof (cases "phase s")
  case Idle
  then show ?thesis using assms by (simp add: stepOrKeep_def step_not_running)
next
  case Running
  from step_settled [OF assms Running, of animate] obtain s' where
    sx: "step animate s = Inr s' \<and> settled s'
    \<and> currentStep (parameterNode s') = currentStep (parameterNode s) + 1
    \<and> totalSteps (parameterNode s') = totalSteps (parameterNode s)
    \<and> phase s' =
        (if 0 \<le> totalSteps (parameterNode s)
            \<and> totalSteps (parameterNode s) \<le> currentStep (parameterNode s) + 1
         then Idle else Running)
    \<and> onceExecutions s' = onceExecutions s
    \<and> onceGuard s' = onceGuard s" ..
  from sx have a: "step animate s = Inr s'" by (elim conjE)
  from sx have b: "settled s'" by (elim conjE)
  from sx have c: "onceExecutions s' = onceExecutions s" by (elim conjE)
  from sx have d: "onceGuard s' = onceGuard s" by (elim conjE)
  show ?thesis by (simp add: stepOrKeep_def a b c d)
qed

lemma stepOrKeep_funpow_settled:
  "settled s \<Longrightarrow>
   settled ((stepOrKeep animate ^^ n) s)
    \<and> onceExecutions ((stepOrKeep animate ^^ n) s) = onceExecutions s
    \<and> onceGuard ((stepOrKeep animate ^^ n) s) = onceGuard s"
proof (induction n)
  case 0
  then show ?case by simp
next
  case (Suc n)
  from Suc have a: "settled ((stepOrKeep animate ^^ n) s)"
    and b: "onceExecutions ((stepOrKeep animate ^^ n) s) = onceExecutions s"
    and c: "onceGuard ((stepOrKeep animate ^^ n) s) = onceGuard s" by simp_all
  from stepOrKeep_settled [OF a, of animate] b c show ?case by simp
qed

lemma stepOrKeep_funpow_model:
  assumes "settled s"
  shows "(modelNode (parameterNode ((stepOrKeep animate ^^ n) s)) = None)
     = (modelNode (parameterNode s) = None)"
proof -
  let ?t = "(stepOrKeep animate ^^ n) s"
  from stepOrKeep_funpow_settled [OF assms, where animate = animate and n = n]
  have b: "settled ?t" and c: "onceGuard ?t = onceGuard s" by simp_all
  from assms have d: "onceGuard s = (modelNode (parameterNode s) \<noteq> None)"
    by (simp only: settled_def)
  from b have e: "onceGuard ?t = (modelNode (parameterNode ?t) \<noteq> None)"
    by (simp only: settled_def)
  from c d e show ?thesis by blast
qed

lemma stop_settled:
  "phase (stop s) = Idle \<and> settled (stop s) = settled s
   \<and> onceExecutions (stop s) = onceExecutions s
   \<and> parameterNode (stop s) = parameterNode s \<and> onceGuard (stop s) = onceGuard s"
  by (simp add: stop_def settled_def)

lemma start_ok:
  assumes "syncOk (parameterNode s)" "phase s = Idle"
  shows "\<exists>s'. start s = Inr s'"
proof -
  from runToEngine_ok [OF assms(1), of False "rootNode s"] obtain e' where
    r: "runToEngine (parameterNode s) False (rootNode s) =
       Inr (e', False \<or> modelNode (parameterNode s) \<noteq> None,
            if \<not> False \<and> modelNode (parameterNode s) \<noteq> None then 1 else 0)" ..
  show ?thesis by (simp add: start_def assms(2) r)
qed

lemma steps_running:
  "settled s \<Longrightarrow> phase s = Running \<Longrightarrow>
   totalSteps (parameterNode s) < 0
     \<or> currentStep (parameterNode s) + int n < totalSteps (parameterNode s) \<Longrightarrow>
   \<exists>s'. steps animate n s = Inr s' \<and> settled s' \<and> phase s' = Running
     \<and> currentStep (parameterNode s') = currentStep (parameterNode s) + int n
     \<and> totalSteps (parameterNode s') = totalSteps (parameterNode s)"
proof (induction n arbitrary: s)
  case 0
  then show ?case by simp
next
  case (Suc n)
  from step_settled [OF Suc.prems(1,2), of animate] obtain s1 where
    sx: "step animate s = Inr s1 \<and> settled s1
    \<and> currentStep (parameterNode s1) = currentStep (parameterNode s) + 1
    \<and> totalSteps (parameterNode s1) = totalSteps (parameterNode s)
    \<and> phase s1 =
        (if 0 \<le> totalSteps (parameterNode s)
            \<and> totalSteps (parameterNode s) \<le> currentStep (parameterNode s) + 1
         then Idle else Running)
    \<and> onceExecutions s1 = onceExecutions s
    \<and> onceGuard s1 = onceGuard s" ..
  from sx have a: "step animate s = Inr s1" by (elim conjE)
  from sx have b: "settled s1" by (elim conjE)
  from sx have c: "currentStep (parameterNode s1) = currentStep (parameterNode s) + 1"
    by (elim conjE)
  from sx have t: "totalSteps (parameterNode s1) = totalSteps (parameterNode s)"
    by (elim conjE)
  from sx have p: "phase s1 =
        (if 0 \<le> totalSteps (parameterNode s)
            \<and> totalSteps (parameterNode s) \<le> currentStep (parameterNode s) + 1
         then Idle else Running)" by (elim conjE)
  from Suc.prems(3) have run: "phase s1 = Running" unfolding p by auto
  from Suc.prems(3) have bound:
    "totalSteps (parameterNode s1) < 0
     \<or> currentStep (parameterNode s1) + int n < totalSteps (parameterNode s1)"
    unfolding c t by auto
  from Suc.IH [OF b run bound] obtain s' where
    ih: "steps animate n s1 = Inr s' \<and> settled s' \<and> phase s' = Running
     \<and> currentStep (parameterNode s') = currentStep (parameterNode s1) + int n
     \<and> totalSteps (parameterNode s') = totalSteps (parameterNode s1)" ..
  show ?case
    by (rule exI [of _ s']) (use ih in \<open>simp add: a c t\<close>)
qed

lemma steps_exhaust:
  "settled s \<Longrightarrow> phase s = Running \<Longrightarrow>
   currentStep (parameterNode s) + int (Suc n) = totalSteps (parameterNode s) \<Longrightarrow>
   0 \<le> totalSteps (parameterNode s) \<Longrightarrow>
   \<exists>s'. steps animate (Suc n) s = Inr s' \<and> settled s' \<and> phase s' = Idle
     \<and> currentStep (parameterNode s') = totalSteps (parameterNode s)"
proof (induction n arbitrary: s)
  case 0
  note prems = "0.prems"
  from step_settled [OF prems(1,2), of animate] obtain s1 where
    sx: "step animate s = Inr s1 \<and> settled s1
    \<and> currentStep (parameterNode s1) = currentStep (parameterNode s) + 1
    \<and> totalSteps (parameterNode s1) = totalSteps (parameterNode s)
    \<and> phase s1 =
        (if 0 \<le> totalSteps (parameterNode s)
            \<and> totalSteps (parameterNode s) \<le> currentStep (parameterNode s) + 1
         then Idle else Running)
    \<and> onceExecutions s1 = onceExecutions s
    \<and> onceGuard s1 = onceGuard s" ..
  from sx have a: "step animate s = Inr s1" by (elim conjE)
  from sx have b: "settled s1" by (elim conjE)
  from sx have c: "currentStep (parameterNode s1) = currentStep (parameterNode s) + 1"
    by (elim conjE)
  from sx have p: "phase s1 =
        (if 0 \<le> totalSteps (parameterNode s)
            \<and> totalSteps (parameterNode s) \<le> currentStep (parameterNode s) + 1
         then Idle else Running)" by (elim conjE)
  from prems(3) have le: "totalSteps (parameterNode s) \<le> currentStep (parameterNode s) + 1"
    by simp
  have idle: "phase s1 = Idle" unfolding p using prems(4) le by simp
  from prems(3) have cs: "currentStep (parameterNode s1) = totalSteps (parameterNode s)"
    unfolding c by simp
  have st: "steps animate (Suc 0) s = Inr s1"
    by (simp only: steps.simps a sum.case)
  show ?case
    by (intro exI [of _ s1] conjI) (rule st b idle cs)+
next
  case (Suc n)
  from step_settled [OF Suc.prems(1,2), of animate] obtain s1 where
    sx: "step animate s = Inr s1 \<and> settled s1
    \<and> currentStep (parameterNode s1) = currentStep (parameterNode s) + 1
    \<and> totalSteps (parameterNode s1) = totalSteps (parameterNode s)
    \<and> phase s1 =
        (if 0 \<le> totalSteps (parameterNode s)
            \<and> totalSteps (parameterNode s) \<le> currentStep (parameterNode s) + 1
         then Idle else Running)
    \<and> onceExecutions s1 = onceExecutions s
    \<and> onceGuard s1 = onceGuard s" ..
  from sx have a: "step animate s = Inr s1" by (elim conjE)
  from sx have b: "settled s1" by (elim conjE)
  from sx have c: "currentStep (parameterNode s1) = currentStep (parameterNode s) + 1"
    by (elim conjE)
  from sx have t: "totalSteps (parameterNode s1) = totalSteps (parameterNode s)"
    by (elim conjE)
  from sx have p: "phase s1 =
        (if 0 \<le> totalSteps (parameterNode s)
            \<and> totalSteps (parameterNode s) \<le> currentStep (parameterNode s) + 1
         then Idle else Running)" by (elim conjE)
  from Suc.prems(3) have nle:
    "\<not> totalSteps (parameterNode s) \<le> currentStep (parameterNode s) + 1" by simp
  have run: "phase s1 = Running" unfolding p using nle by simp
  from Suc.prems(3) have eq:
    "currentStep (parameterNode s1) + int (Suc n) = totalSteps (parameterNode s1)"
    unfolding c t by simp
  from Suc.prems(4) have nn: "0 \<le> totalSteps (parameterNode s1)" unfolding t .
  from Suc.IH [OF b run eq nn] obtain s' where
    ih: "steps animate (Suc n) s1 = Inr s' \<and> settled s' \<and> phase s' = Idle
     \<and> currentStep (parameterNode s') = totalSteps (parameterNode s1)" ..
  from ih have i1: "steps animate (Suc n) s1 = Inr s'" by (elim conjE)
  from ih have i2: "settled s'" by (elim conjE)
  from ih have i3: "phase s' = Idle" by (elim conjE)
  from ih have i4: "currentStep (parameterNode s') = totalSteps (parameterNode s)"
    unfolding t by (elim conjE)
  have st: "steps animate (Suc (Suc n)) s = Inr s'"
    unfolding steps.simps(2) [of animate "Suc n" s] a sum.case by (rule i1)
  show ?case
    by (intro exI [of _ s'] conjI) (rule st i2 i3 i4)+
qed

lemma step_once:
  assumes "step animate s = Inr s'"
  shows "onceGuard s' = (onceGuard s \<or> modelNode (parameterNode s) \<noteq> None)
    \<and> onceExecutions s' = onceExecutions s
         + (if \<not> onceGuard s \<and> modelNode (parameterNode s) \<noteq> None then 1 else 0)"
proof -
  from assms have run: "phase s = Running"
    by (cases "phase s") (simp_all add: step_def)
  from assms run obtain root1 g' k where
    r: "runToEngine (parameterNode s) (onceGuard s) (rootNode s) = Inr (root1, g', k)"
    by (cases "runToEngine (parameterNode s) (onceGuard s) (rootNode s)")
       (auto simp: step_def)
  from assms run r obtain pn' where
    f: "runFromEngine (parameterNode s) (animate (dt (parameterNode s)) root1) = Inr pn'"
    by (cases "runFromEngine (parameterNode s) (animate (dt (parameterNode s)) root1)")
       (auto simp: step_def Let_def)
  from assms have s': "onceGuard s' = g'" "onceExecutions s' = onceExecutions s + k"
    by (auto simp: step_def run r f Let_def)
  from runToEngine_result [OF r] show ?thesis unfolding s' by simp
qed

lemma step_ok:
  assumes "syncOk (parameterNode s)" "phase s = Running"
  shows "\<exists>s'. step animate s = Inr s'"
proof -
  from runToEngine_ok [OF assms(1), of "onceGuard s" "rootNode s"] obtain e' where
    r: "runToEngine (parameterNode s) (onceGuard s) (rootNode s) =
          Inr (e', onceGuard s \<or> modelNode (parameterNode s) \<noteq> None,
               if \<not> onceGuard s \<and> modelNode (parameterNode s) \<noteq> None then 1 else 0)" ..
  from runFromEngine_ok [OF assms(1), of "animate (dt (parameterNode s)) e'"] obtain pn' where
    fx: "runFromEngine (parameterNode s) (animate (dt (parameterNode s)) e') = Inr pn'
           \<and> syncOk pn'
           \<and> (modelNode pn' = None) = (modelNode (parameterNode s) = None)
           \<and> currentStep pn' = currentStep (parameterNode s)
           \<and> totalSteps pn' = totalSteps (parameterNode s)" ..
  from fx have f: "runFromEngine (parameterNode s) (animate (dt (parameterNode s)) e') = Inr pn'"
    by (rule conjunct1)
  show ?thesis by (simp add: step_def assms(2) r f Let_def)
qed

lemma start_parameterNode:
  assumes "start s0 = Inr s1"
  shows "parameterNode s1 = (parameterNode s0)\<lparr>currentStep := 0\<rparr>"
proof -
  from assms have idle: "phase s0 \<noteq> Running"
    by (cases "phase s0") (simp_all add: start_def)
  from assms idle obtain root' g' k where
    r: "runToEngine (parameterNode s0) False (rootNode s0) = Inr (root', g', k)"
    by (cases "runToEngine (parameterNode s0) False (rootNode s0)") (auto simp: start_def)
  from assms show ?thesis by (auto simp: start_def idle r)
qed

lemma tetraSession_ready:
  "syncOk (parameterNode (tetraSession b))" "phase (tetraSession b) = Idle"
  "totalSteps (parameterNode (tetraSession b)) = b"
  "modelNode (parameterNode (tetraSession b)) = Some tetraModel"
  "onceExecutions (tetraSession b) = 0"
  by (simp_all add: tetraSession_def newLogic_def emptyParameterNode_def tetraModel_def
      syncOk_def)

subsection \<open>Stopping\<close>

lemma stopSimulation_twice: "stopSimulation (stopSimulation s) = stopSimulation s"
  by (simp add: stopSimulation_def stop_def)

lemma stopSimulation_funpow: "(stopSimulation ^^ Suc n) s = stopSimulation s"
proof (induction n)
  case 0
  show ?case by simp
next
  case (Suc n)
  have "(stopSimulation ^^ Suc (Suc n)) s = stopSimulation ((stopSimulation ^^ Suc n) s)"
    by simp
  also have "\<dots> = stopSimulation (stopSimulation s)" by (simp only: Suc.IH)
  also have "\<dots> = stopSimulation s" by (rule stopSimulation_twice)
  finally show ?case .
qed

text \<open>
  C6. \<open>stop\<close> on an idle session returns the session as it is, and the source's
  \<^verbatim>\<open>stopSimulation\<close> changes nothing there but \<^verbatim>\<open>_simulationRunning\<close>, so the step
  index is unchanged; neither operation has a failing result. From any session, any number
  of calls of \<^verbatim>\<open>stopSimulation\<close> leaves the state the first call gave.
\<close>

theorem stop_idempotent:
  "(phase s = Idle \<longrightarrow>
      stop s = s
    \<and> stopSimulation s = s\<lparr>simulationRunning := False\<rparr>
    \<and> currentStep (parameterNode (stopSimulation s)) = currentStep (parameterNode s))
   \<and> phase (stopSimulation s) = Idle
   \<and> (stopSimulation ^^ Suc n) s = stopSimulation s"
proof (intro conjI impI)
  assume "phase s = Idle"
  then show "stop s = s" by (simp add: stop_def)
  then show "stopSimulation s = s\<lparr>simulationRunning := False\<rparr>"
    by (simp add: stopSimulation_def)
  then show "currentStep (parameterNode (stopSimulation s)) = currentStep (parameterNode s)"
    by simp
next
  show "phase (stopSimulation s) = Idle" by (simp add: stopSimulation_def stop_def)
  show "(stopSimulation ^^ Suc n) s = stopSimulation s" by (rule stopSimulation_funpow)
qed

theorem stop_idempotent_witness:
  "stop (newLogic emptyParameterNode) = newLogic emptyParameterNode
   \<and> currentStep (parameterNode (stopSimulation (newLogic emptyParameterNode))) = 0
   \<and> (stopSimulation ^^ Suc 2) (newLogic emptyParameterNode)
       = stopSimulation (newLogic emptyParameterNode)"
  using stop_idempotent [of "newLogic emptyParameterNode" 2]
  by (simp add: newLogic_def emptyParameterNode_def)

subsection \<open>The step budget\<close>

text \<open>
  C5. From a freshly started session with step budget 5, the first five calls of
  \<open>step\<close> succeed (the session is still running after fewer than five), the fifth
  leaves the session idle, and the sixth fails with \<open>NotRunning\<close>; with step budget
  \<open>-1\<close> any number of calls succeeds and the session stays running.
\<close>

theorem step_budget:
  assumes "start s0 = Inr s1"
  shows "(totalSteps (parameterNode s0) = 5 \<longrightarrow>
            (\<exists>s6. steps animate 5 s1 = Inr s6 \<and> phase s6 = Idle
                 \<and> step animate s6 = Inl NotRunning)
          \<and> (\<forall>k<5. \<exists>s. steps animate k s1 = Inr s \<and> phase s = Running))
       \<and> (totalSteps (parameterNode s0) = - 1 \<longrightarrow>
            (\<exists>s. steps animate n s1 = Inr s \<and> phase s = Running
                \<and> currentStep (parameterNode s) = int n))"
proof -
  note ss = start_settled [OF assms]
  from ss have se: "settled s1" by (elim conjE)
  from ss have run: "phase s1 = Running" by (elim conjE)
  from ss have cs: "currentStep (parameterNode s1) = 0" by (elim conjE)
  from ss have ts: "totalSteps (parameterNode s1) = totalSteps (parameterNode s0)"
    by (elim conjE)
  have A: "\<exists>s6. steps animate 5 s1 = Inr s6 \<and> phase s6 = Idle
                 \<and> step animate s6 = Inl NotRunning"
    if b: "totalSteps (parameterNode s0) = 5"
  proof -
    have eq: "currentStep (parameterNode s1) + int (Suc 4) = totalSteps (parameterNode s1)"
      unfolding cs ts b by simp
    have nn: "0 \<le> totalSteps (parameterNode s1)" unfolding ts b by simp
    from steps_exhaust [OF se run eq nn, of animate] obtain s6 where
      x: "steps animate (Suc 4) s1 = Inr s6 \<and> settled s6 \<and> phase s6 = Idle
            \<and> currentStep (parameterNode s6) = totalSteps (parameterNode s1)" ..
    from x have x1: "steps animate (Suc 4) s1 = Inr s6" by (elim conjE)
    from x have x3: "phase s6 = Idle" by (elim conjE)
    have five: "(5::nat) = Suc 4" by simp
    have x1': "steps animate 5 s1 = Inr s6" unfolding five by (rule x1)
    show ?thesis
      by (intro exI [of _ s6] conjI) (rule x1' x3 step_not_running [OF x3])+
  qed
  have B: "\<forall>k<5. \<exists>s. steps animate k s1 = Inr s \<and> phase s = Running"
    if b: "totalSteps (parameterNode s0) = 5"
  proof (intro allI impI)
    fix k :: nat assume k: "k < 5"
    then have bound: "totalSteps (parameterNode s1) < 0
        \<or> currentStep (parameterNode s1) + int k < totalSteps (parameterNode s1)"
      unfolding cs ts b by simp
    from steps_running [OF se run bound, of animate] obtain s where
      y: "steps animate k s1 = Inr s \<and> settled s \<and> phase s = Running
     \<and> currentStep (parameterNode s) = currentStep (parameterNode s1) + int k
     \<and> totalSteps (parameterNode s) = totalSteps (parameterNode s1)" ..
    from y have y1: "steps animate k s1 = Inr s" by (elim conjE)
    from y have y3: "phase s = Running" by (elim conjE)
    show "\<exists>s. steps animate k s1 = Inr s \<and> phase s = Running"
      by (intro exI [of _ s] conjI) (rule y1 y3)+
  qed
  have C: "\<exists>s. steps animate n s1 = Inr s \<and> phase s = Running
                \<and> currentStep (parameterNode s) = int n"
    if b: "totalSteps (parameterNode s0) = - 1"
  proof -
    have bound: "totalSteps (parameterNode s1) < 0
        \<or> currentStep (parameterNode s1) + int n < totalSteps (parameterNode s1)"
      unfolding ts b by simp
    from steps_running [OF se run bound, of animate] obtain s where
      y: "steps animate n s1 = Inr s \<and> settled s \<and> phase s = Running
     \<and> currentStep (parameterNode s) = currentStep (parameterNode s1) + int n
     \<and> totalSteps (parameterNode s) = totalSteps (parameterNode s1)" ..
    from y have y1: "steps animate n s1 = Inr s" by (elim conjE)
    from y have y3: "phase s = Running" by (elim conjE)
    from y have y4: "currentStep (parameterNode s) = int n" unfolding cs by simp
    show ?thesis
      by (intro exI [of _ s] conjI) (rule y1 y3 y4)+
  qed
  show ?thesis
    by (intro conjI impI A B C)
qed

theorem step_budget_witness:
  "\<exists>s1 s6. start (tetraSession 5) = Inr s1 \<and> steps holdStill 5 s1 = Inr s6
      \<and> phase s6 = Idle \<and> step holdStill s6 = Inl NotRunning"
proof -
  from start_ok [OF tetraSession_ready(1,2)] obtain s1 where
    st: "start (tetraSession 5) = Inr s1" ..
  from step_budget [OF st, of holdStill 0]
  have "totalSteps (parameterNode (tetraSession 5)) = 5 \<longrightarrow>
            (\<exists>s6. steps holdStill 5 s1 = Inr s6 \<and> phase s6 = Idle
                 \<and> step holdStill s6 = Inl NotRunning)
          \<and> (\<forall>k<5. \<exists>s. steps holdStill k s1 = Inr s \<and> phase s = Running)"
    by (rule conjunct1)
  from mp [OF this tetraSession_ready(3)]
  have "\<exists>s6. steps holdStill 5 s1 = Inr s6 \<and> phase s6 = Idle
                 \<and> step holdStill s6 = Inl NotRunning"
    by (rule conjunct1)
  then obtain s6 where
    z: "steps holdStill 5 s1 = Inr s6 \<and> phase s6 = Idle \<and> step holdStill s6 = Inl NotRunning" ..
  show ?thesis
    by (rule exI [of _ s1], rule exI [of _ s6]) (use st z in simp)
qed

subsection \<open>The topology upload runs once per session\<close>

text \<open>
  C4. In a session whose \<open>start\<close> succeeded with the model node present, the topology
  upload has executed exactly once after any number of calls of \<open>step\<close> (failing
  calls included), and exactly once more after \<open>stop\<close>, a second \<open>start\<close> (which
  succeeds) and any number of further calls of \<open>step\<close>. When the model node was absent
  at \<open>start\<close>, the attempts do not set the once-guard and execute nothing, and the first
  successful \<open>step\<close> after a model node is bound executes the upload and sets the guard.
\<close>

theorem once_upload_exactly_once:
  assumes "start s0 = Inr s1"
  shows "(modelNode (parameterNode s0) \<noteq> None \<longrightarrow>
            onceExecutions ((stepOrKeep animate ^^ n) s1) = onceExecutions s0 + 1
          \<and> (\<exists>s2. start (stop ((stepOrKeep animate ^^ n) s1)) = Inr s2
               \<and> onceExecutions ((stepOrKeep animate ^^ k) s2) = onceExecutions s0 + 2))
       \<and> (modelNode (parameterNode s0) = None \<longrightarrow>
            \<not> onceGuard ((stepOrKeep animate ^^ n) s1)
          \<and> onceExecutions ((stepOrKeep animate ^^ n) s1) = onceExecutions s0
          \<and> (\<forall>m s2.
                step animate
                  (((stepOrKeep animate ^^ n) s1)
                     \<lparr>parameterNode :=
                        (parameterNode ((stepOrKeep animate ^^ n) s1))\<lparr>modelNode := Some m\<rparr>\<rparr>)
                  = Inr s2
                \<longrightarrow> onceGuard s2 \<and> onceExecutions s2 = onceExecutions s0 + 1))"
proof -
  let ?t = "(stepOrKeep animate ^^ n) s1"
  note ss = start_settled [OF assms]
  from ss have se: "settled s1" by (elim conjE)
  from ss have mm: "modelNode (parameterNode s1) = modelNode (parameterNode s0)"
    by (elim conjE)
  from ss have oe: "onceExecutions s1 =
        onceExecutions s0 + (if modelNode (parameterNode s0) = None then 0 else 1)"
    by (elim conjE)
  from ss have og: "onceGuard s1 = (modelNode (parameterNode s0) \<noteq> None)"
    by (elim conjE)
  note ts = stepOrKeep_funpow_settled [OF se, where animate = animate and n = n]
  from ts have te: "settled ?t" by (elim conjE)
  from ts have toe: "onceExecutions ?t = onceExecutions s1" by (elim conjE)
  from ts have tog: "onceGuard ?t = onceGuard s1" by (elim conjE)
  note tm = stepOrKeep_funpow_model [OF se, where animate = animate and n = n]
  have A1: "onceExecutions ?t = onceExecutions s0 + 1"
    if p: "modelNode (parameterNode s0) \<noteq> None"
    unfolding toe oe using p by simp
  have A2: "\<exists>s2. start (stop ?t) = Inr s2
               \<and> onceExecutions ((stepOrKeep animate ^^ k) s2) = onceExecutions s0 + 2"
    if p: "modelNode (parameterNode s0) \<noteq> None"
  proof -
    note sp = stop_settled [of ?t]
    from sp have u1: "phase (stop ?t) = Idle" by (elim conjE)
    from sp have u2: "settled (stop ?t) = settled ?t" by (elim conjE)
    from sp have u3: "onceExecutions (stop ?t) = onceExecutions ?t" by (elim conjE)
    from sp have u4: "parameterNode (stop ?t) = parameterNode ?t" by (elim conjE)
    from te have "syncOk (parameterNode ?t)" by (simp only: settled_def)
    then have ok: "syncOk (parameterNode (stop ?t))" unfolding u4 .
    from start_ok [OF ok u1] obtain s2 where st2: "start (stop ?t) = Inr s2" ..
    note ss2 = start_settled [OF st2]
    from ss2 have se2: "settled s2" by (elim conjE)
    from ss2 have oe2: "onceExecutions s2 =
        onceExecutions (stop ?t)
          + (if modelNode (parameterNode (stop ?t)) = None then 0 else 1)"
      by (elim conjE)
    have present: "modelNode (parameterNode (stop ?t)) \<noteq> None"
      unfolding u4 using tm mm p by simp
    have e2: "onceExecutions s2 = onceExecutions s0 + 2"
      unfolding oe2 u3 using present A1 [OF p] by simp
    note ks = stepOrKeep_funpow_settled [OF se2, where animate = animate and n = k]
    from ks have "onceExecutions ((stepOrKeep animate ^^ k) s2) = onceExecutions s2"
      by (elim conjE)
    then have fin: "onceExecutions ((stepOrKeep animate ^^ k) s2) = onceExecutions s0 + 2"
      unfolding e2 .
    show ?thesis
      by (intro exI [of _ s2] conjI) (rule st2 fin)+
  qed
  have B1: "\<not> onceGuard ?t" if q: "modelNode (parameterNode s0) = None"
    unfolding tog og using q by simp
  have B2: "onceExecutions ?t = onceExecutions s0" if q: "modelNode (parameterNode s0) = None"
    unfolding toe oe using q by simp
  have B3: "\<forall>m s2.
                step animate (?t\<lparr>parameterNode := (parameterNode ?t)\<lparr>modelNode := Some m\<rparr>\<rparr>)
                  = Inr s2
                \<longrightarrow> onceGuard s2 \<and> onceExecutions s2 = onceExecutions s0 + 1"
    if q: "modelNode (parameterNode s0) = None"
  proof (intro allI impI)
    fix m s2
    let ?y = "?t\<lparr>parameterNode := (parameterNode ?t)\<lparr>modelNode := Some m\<rparr>\<rparr>"
    assume a: "step animate ?y = Inr s2"
    note so = step_once [OF a]
    have y1: "onceGuard ?y = False" using B1 [OF q] by simp
    have y2: "modelNode (parameterNode ?y) \<noteq> None" by simp
    have y3: "onceExecutions ?y = onceExecutions s0" using B2 [OF q] by simp
    from so have g: "onceGuard s2 = (onceGuard ?y \<or> modelNode (parameterNode ?y) \<noteq> None)"
      by (rule conjunct1)
    from so have e: "onceExecutions s2 = onceExecutions ?y
         + (if \<not> onceGuard ?y \<and> modelNode (parameterNode ?y) \<noteq> None then 1 else 0)"
      by (rule conjunct2)
    have g': "onceGuard s2" unfolding g using y2 by simp
    have e': "onceExecutions s2 = onceExecutions s0 + 1"
      unfolding e y3 using y1 y2 by simp
    show "onceGuard s2 \<and> onceExecutions s2 = onceExecutions s0 + 1"
      by (intro conjI) (rule g' e')+
  qed
  show ?thesis
    by (intro conjI impI A1 A2 B1 B2 B3)
qed

theorem once_upload_exactly_once_witness:
  "(\<exists>s1. start (tetraSession (- 1)) = Inr s1
       \<and> onceExecutions ((stepOrKeep holdStill ^^ 3) s1) = 1
       \<and> (\<exists>s2. start (stop ((stepOrKeep holdStill ^^ 3) s1)) = Inr s2
             \<and> onceExecutions ((stepOrKeep holdStill ^^ 2) s2) = 2))
   \<and> (\<exists>s1 s2. start (newLogic emptyParameterNode) = Inr s1
         \<and> \<not> onceGuard s1
         \<and> step holdStill (s1\<lparr>parameterNode := (parameterNode s1)\<lparr>modelNode := Some tetraModel\<rparr>\<rparr>)
             = Inr s2
         \<and> onceGuard s2 \<and> onceExecutions s2 = 1)"
proof (rule conjI)
  from start_ok [OF tetraSession_ready(1,2)] obtain s1 where
    st: "start (tetraSession (- 1)) = Inr s1" ..
  have p: "modelNode (parameterNode (tetraSession (- 1))) \<noteq> None"
    by (simp add: tetraSession_ready(4))
  from once_upload_exactly_once [OF st, where animate = holdStill and n = 3 and k = 2]
  have "modelNode (parameterNode (tetraSession (- 1))) \<noteq> None \<longrightarrow>
            onceExecutions ((stepOrKeep holdStill ^^ 3) s1) = onceExecutions (tetraSession (- 1)) + 1
          \<and> (\<exists>s2. start (stop ((stepOrKeep holdStill ^^ 3) s1)) = Inr s2
               \<and> onceExecutions ((stepOrKeep holdStill ^^ 2) s2)
                   = onceExecutions (tetraSession (- 1)) + 2)"
    by (rule conjunct1)
  note w = mp [OF this p]
  have x: "onceExecutions ((stepOrKeep holdStill ^^ 3) s1) = 1
          \<and> (\<exists>s2. start (stop ((stepOrKeep holdStill ^^ 3) s1)) = Inr s2
               \<and> onceExecutions ((stepOrKeep holdStill ^^ 2) s2) = 2)"
    using w unfolding tetraSession_ready(5) add_0 .
  show "\<exists>s1. start (tetraSession (- 1)) = Inr s1
       \<and> onceExecutions ((stepOrKeep holdStill ^^ 3) s1) = 1
       \<and> (\<exists>s2. start (stop ((stepOrKeep holdStill ^^ 3) s1)) = Inr s2
             \<and> onceExecutions ((stepOrKeep holdStill ^^ 2) s2) = 2)"
    by (rule exI [of _ s1]) (rule conjI [OF st x])
next
  let ?s0 = "newLogic emptyParameterNode"
  have ok0: "syncOk (parameterNode ?s0)" and idle0: "phase ?s0 = Idle"
    and q: "modelNode (parameterNode ?s0) = None" and e0: "onceExecutions ?s0 = 0"
    by (simp_all add: newLogic_def emptyParameterNode_def syncOk_def)
  from start_ok [OF ok0 idle0] obtain s1 where st: "start ?s0 = Inr s1" ..
  let ?y = "s1\<lparr>parameterNode := (parameterNode s1)\<lparr>modelNode := Some tetraModel\<rparr>\<rparr>"
  note ss = start_settled [OF st]
  from ss have run: "phase s1 = Running" by (elim conjE)
  have pn: "parameterNode s1 = (parameterNode ?s0)\<lparr>currentStep := 0\<rparr>"
    by (rule start_parameterNode [OF st])
  have oky: "syncOk (parameterNode ?y)"
    by (simp add: pn newLogic_def emptyParameterNode_def syncOk_def tetraModel_def)
  have runy: "phase ?y = Running" using run by simp
  from step_ok [OF oky runy, of holdStill] obtain s2 where st2: "step holdStill ?y = Inr s2" ..
  from once_upload_exactly_once [OF st, where animate = holdStill and n = 0 and k = 0]
  have "modelNode (parameterNode ?s0) = None \<longrightarrow>
            \<not> onceGuard ((stepOrKeep holdStill ^^ 0) s1)
          \<and> onceExecutions ((stepOrKeep holdStill ^^ 0) s1) = onceExecutions ?s0
          \<and> (\<forall>m s2.
                step holdStill
                  (((stepOrKeep holdStill ^^ 0) s1)
                     \<lparr>parameterNode :=
                        (parameterNode ((stepOrKeep holdStill ^^ 0) s1))\<lparr>modelNode := Some m\<rparr>\<rparr>)
                  = Inr s2
                \<longrightarrow> onceGuard s2 \<and> onceExecutions s2 = onceExecutions ?s0 + 1)"
    by (rule conjunct2)
  note w = mp [OF this q]
  have z: "\<not> onceGuard s1 \<and> onceExecutions s1 = 0
          \<and> (\<forall>m s2. step holdStill (s1\<lparr>parameterNode := (parameterNode s1)\<lparr>modelNode := Some m\<rparr>\<rparr>)
                  = Inr s2
                \<longrightarrow> onceGuard s2 \<and> onceExecutions s2 = 1)"
    using w unfolding e0 add_0 funpow_0 .
  from z have z1: "\<not> onceGuard s1" by (rule conjunct1)
  from z have z3: "\<forall>m s2. step holdStill (s1\<lparr>parameterNode := (parameterNode s1)\<lparr>modelNode := Some m\<rparr>\<rparr>)
                  = Inr s2 \<longrightarrow> onceGuard s2 \<and> onceExecutions s2 = 1"
    by (elim conjE)
  from z3 st2 have z4: "onceGuard s2 \<and> onceExecutions s2 = 1"
    by (elim allE [of _ tetraModel] allE [of _ s2] impE) assumption+
  show "\<exists>s1 s2. start ?s0 = Inr s1
         \<and> \<not> onceGuard s1
         \<and> step holdStill (s1\<lparr>parameterNode := (parameterNode s1)\<lparr>modelNode := Some tetraModel\<rparr>\<rparr>)
             = Inr s2
         \<and> onceGuard s2 \<and> onceExecutions s2 = 1"
    by (rule exI [of _ s1], rule exI [of _ s2]) (intro conjI st z1 st2 z4)
qed

end
